(* ===== verification/Dbg_Prelude.thy ===== *)
theory Dbg_Prelude
  imports Main "HOL-Library.Word"
begin

text \<open>
  Shared vocabulary of the development: the C types of \<^verbatim>\<open>src/dbg.c\<close> as HOL types,
  the undefined behaviours the model detects as an error type, the C string terminator,
  a bind on \<open>ub + 'a\<close> that threads those errors, and the list lemmas the buffer proofs
  share.  The collection \<open>ub_simps\<close> holds the rewrite rules of the error bind,
  \<open>cbuf_facts\<close> the facts about fixed-size character arrays, and \<open>dbg_eval\<close> the
  definitions that \<open>simp\<close> unfolds to evaluate the model on a concrete input.
\<close>

named_theorems ub_simps "rewrite rules for the undefined-behaviour bind"
named_theorems cbuf_facts "facts about character arrays with indeterminate cells"
named_theorems dbg_eval "definitions unfolded to evaluate the model on concrete inputs"

section \<open>C types\<close>

type_synonym u8 = "8 word"     \<comment> \<open>\<open>unsigned char\<close>\<close>
type_synonym u32 = "32 word"   \<comment> \<open>\<open>unsigned int\<close>\<close>
type_synonym s32 = "32 word"   \<comment> \<open>\<open>int\<close>, \<open>pid_t\<close>: read with \<open>sint\<close>\<close>
type_synonym u64 = "64 word"   \<comment> \<open>\<open>size_t\<close> on an LP64 target\<close>

text \<open>
  A stack array \<open>char a[N]\<close> is a list of \<open>N\<close> cells; \<open>None\<close> is a cell that was never
  written (its value is indeterminate).
\<close>

type_synonym cbuf = "char option list"

definition NUL :: char where
  [dbg_eval]: "NUL = CHR 0x00"

text \<open>An \<open>int\<close> passed where a \<open>size_t\<close> parameter is expected: C converts it modulo \<open>2^64\<close>.\<close>

text \<open>\<open>INT_MAX\<close> of \<open><limits.h>\<close> for the 32-bit \<open>int\<close> of the target.\<close>

definition INT_MAX :: int where
  [dbg_eval]: "INT_MAX = 2 ^ 31 - 1"

definition size_of_int :: "int \<Rightarrow> nat" where
  "size_of_int r = unat (word_of_int r :: u64)"

text \<open>
  \<open>MIN(a, b)\<close> of \<^verbatim>\<open>src/dbg.c\<close>: a statement expression that evaluates each argument once
  and yields \<open>_a < _b ? _a : _b\<close>, both arguments at the type of the comparison.
\<close>

definition MIN_macro :: "'a :: linorder \<Rightarrow> 'a \<Rightarrow> 'a" where
  "MIN_macro a b = (if a < b then a else b)"

section \<open>Undefined behaviour as a value\<close>

text \<open>
  Every place where the C code may write or read outside an object, or read an
  indeterminate value, is a branch of the model that returns one of these.
\<close>

datatype ub =
    Write_oob nat    \<comment> \<open>store to the given index past the end of an array\<close>
  | Read_oob         \<comment> \<open>load past the end of an array or string\<close>
  | Read_uninit      \<comment> \<open>load of an indeterminate value\<close>
  | Int_overflow     \<comment> \<open>a signed \<open>int\<close> arithmetic result outside \<open>[INT_MIN, INT_MAX]\<close>\<close>

definition ub_bind :: "ub + 'a \<Rightarrow> ('a \<Rightarrow> ub + 'b) \<Rightarrow> ub + 'b" where
  "ub_bind r f = (case r of Inl e \<Rightarrow> Inl e | Inr x \<Rightarrow> f x)"

lemma MIN_macro_min [simp]: "MIN_macro a b = min a b"
  by (auto simp: MIN_macro_def min_def)

lemma ub_bind_Inl [simp, ub_simps]: "ub_bind (Inl e) f = Inl e"
  by (simp add: ub_bind_def)

lemma ub_bind_Inr [simp, ub_simps]: "ub_bind (Inr x) f = f x"
  by (simp add: ub_bind_def)

lemma ub_bind_eq_Inr [ub_simps]:
  "ub_bind r f = Inr y \<longleftrightarrow> (\<exists>x. r = Inr x \<and> f x = Inr y)"
  by (cases r) simp_all

lemma ub_bind_eq_Inl [ub_simps]:
  "ub_bind r f = Inl e \<longleftrightarrow> r = Inl e \<or> (\<exists>x. r = Inr x \<and> f x = Inl e)"
  by (cases r) simp_all

lemma ub_bind_cong [fundef_cong]:
  "r = r' \<Longrightarrow> (\<And>x. r' = Inr x \<Longrightarrow> f x = f' x) \<Longrightarrow> ub_bind r f = ub_bind r' f'"
  unfolding ub_bind_def by (auto split: sum.split)

text \<open>
  Evaluating a chain of binds on a concrete input: simplify the first argument before
  looking inside the continuation (as \<open>if_weak_cong\<close> does for conditionals).
\<close>

lemma ub_bind_weak_cong: "r = r' \<Longrightarrow> ub_bind r f = ub_bind r' f"
  by simp

section \<open>Lists and arrays\<close>

lemma NUL_neq [simp]:
  "NUL \<noteq> CHR ''%''" "NUL \<noteq> CHR ''B''" "NUL \<noteq> CHR ''f''" "NUL \<noteq> CHR ''F''"
  "NUL \<noteq> CHR ''l''" "NUL \<noteq> CHR ''p''" "NUL \<noteq> CHR ''t''" "NUL \<noteq> CHR ''T''"
  "NUL \<noteq> CHR ''/''" "NUL \<noteq> CHR '' ''" "NUL \<noteq> CHR ''*''" "NUL \<noteq> CHR '':''"
  "NUL \<noteq> CHR ''-''" "NUL \<noteq> CHR ''0''" "NUL \<noteq> CHR ''.''"
  by (simp_all add: NUL_def)

lemmas NUL_neq_sym [simp] = NUL_neq [THEN not_sym]

lemma size_of_int_nonneg [simp]:
  "0 \<le> r \<Longrightarrow> r < 2 ^ 64 \<Longrightarrow> size_of_int r = nat r"
  by (simp add: size_of_int_def unsigned_of_int take_bit_int_eq_self)

lemma drop_eq_nth_Cons:
  "i < length xs \<Longrightarrow> xs ! i = c \<Longrightarrow> drop i xs = c # drop (Suc i) xs"
  by (metis Cons_nth_drop_Suc)

lemma length_takeWhile_less:
  "x \<in> set xs \<Longrightarrow> \<not> P x \<Longrightarrow> length (takeWhile P xs) < length xs"
  by (induction xs) auto

lemma takeWhile_take:
  "takeWhile P (take n xs) = take n (takeWhile P xs)"
  by (induction xs arbitrary: n) (auto simp: take_Cons split: nat.split)

lemma replicate_numeral [dbg_eval]:
  "replicate (numeral n) x = x # replicate (pred_numeral n) x"
  by (simp add: numeral_eq_Suc)

lemma nth_splice [cbuf_facts]:
  "i < length b \<Longrightarrow> p + length xs \<le> length b \<Longrightarrow>
   (take p b @ xs @ drop (p + length xs) b) ! i =
     (if i < p then b ! i else if i < p + length xs then xs ! (i - p) else b ! i)"
  by (auto simp: nth_append min_def)

lemma length_splice [simp, cbuf_facts]:
  "p + length xs \<le> length b \<Longrightarrow> length (take p b @ xs @ drop (p + length xs) b) = length b"
  by simp

lemma take_Suc_update [simp, cbuf_facts]:
  "p < length b \<Longrightarrow> take (Suc p) (b[p := x]) = take p b @ [x]"
  by (simp add: take_Suc_conv_app_nth take_update_cancel)

section \<open>Machine words\<close>

lemma nat_numeral_add_int [simp]: "nat (numeral k + int n) = numeral k + n"
  by (simp add: nat_add_distrib)

lemma unat_sub_of_nat: "k \<le> unat (r :: u64) \<Longrightarrow> unat (r - word_of_int (int k)) = unat r - k"
  by (simp add: unat_sub word_le_nat_alt le_unat_uoi)

text \<open>An \<open>unsigned\<close> value converted to \<open>size_t\<close> keeps its value.\<close>

lemma unat_ucast_u32 [simp]: "unat (ucast (x :: u32) :: u64) = unat x"
  using unsigned_less [of x, where ?'a = nat] by (simp add: unsigned_ucast_eq take_bit_nat_eq_self_iff)

lemma unat_u32_less: "unat (x :: u32) < 2 ^ 32"
  using unsigned_less [of x, where ?'a = nat] by simp

lemma unat_u32_succ_mod16: "unat ((i :: u32) + 1) mod 16 = Suc (unat i mod 16) mod 16"
proof -
  have "unat (i + 1) mod 16 = (unat i + 1) mod 2 ^ 32 mod 16" by (simp add: unat_word_ariths(1))
  also have "\<dots> = (unat i + 1) mod 16" by (rule mod_mod_cancel) simp
  also have "\<dots> = Suc (unat i mod 16) mod 16" by (simp add: mod_Suc_eq)
  finally show ?thesis .
qed

end
