(* ===== verification/Libc.thy ===== *)
theory Libc
  imports Dbg_Prelude
begin

text \<open>
  The C library functions that \<^verbatim>\<open>src/dbg.c\<close> calls, modelled from their ISO C / POSIX
  contracts (they are not code of the repository): the numeric and string conversions
  \<open>%u %d %ld %06ld %02x %s\<close>, \<open>strrchr\<close>, \<open>snprintf\<close> and \<open>vsnprintf\<close> writing into a
  character array, and \<open>printf("%s", buf)\<close> reading a C string out of an array and
  writing it to \<open>stdout\<close>.  \<open>snprintf\<close> takes the already converted text: its contract
  is "store at most \<open>n - 1\<close> characters and a terminator, return the full length".
\<close>

section \<open>Conversions\<close>

definition hexchars :: string where
  [dbg_eval]: "hexchars = ''0123456789abcdef''"

fun dec_digits :: "nat \<Rightarrow> string" where
  "dec_digits n = (if n < 10 then [hexchars ! n] else dec_digits (n div 10) @ [hexchars ! (n mod 10)])"

fun hex_digits :: "nat \<Rightarrow> string" where
  "hex_digits n = (if n < 16 then [hexchars ! n] else hex_digits (n div 16) @ [hexchars ! (n mod 16)])"

declare dec_digits.simps [simp del] hex_digits.simps [simp del]

definition pad0 :: "nat \<Rightarrow> string \<Rightarrow> string" where
  "pad0 w s = replicate (w - length s) (CHR ''0'') @ s"

definition fmt_u :: "nat \<Rightarrow> string" where    \<comment> \<open>\<open>%u\<close>\<close>
  "fmt_u n = dec_digits n"

definition fmt_d :: "int \<Rightarrow> string" where    \<comment> \<open>\<open>%d\<close>, \<open>%ld\<close>\<close>
  "fmt_d i = (if i < 0 then CHR ''-'' # dec_digits (nat (- i)) else dec_digits (nat i))"

definition fmt_06ld :: "int \<Rightarrow> string" where  \<comment> \<open>\<open>%06ld\<close>: zero padded to width 6, sign included\<close>
  "fmt_06ld i = (if i < 0 then CHR ''-'' # pad0 5 (dec_digits (nat (- i))) else pad0 6 (dec_digits (nat i)))"

definition fmt_02x :: "nat \<Rightarrow> string" where   \<comment> \<open>\<open>%02x\<close>\<close>
  "fmt_02x n = pad0 2 (hex_digits n)"

definition fmt_s :: "string \<Rightarrow> string" where   \<comment> \<open>\<open>%s\<close>: the characters before the terminator\<close>
  "fmt_s s = takeWhile (\<lambda>c. c \<noteq> NUL) s"

definition c_div :: "int \<Rightarrow> int \<Rightarrow> int" where  \<comment> \<open>C division truncates towards zero\<close>
  "c_div a b = sgn a * sgn b * (\<bar>a\<bar> div \<bar>b\<bar>)"

fun strrchr_from :: "string \<Rightarrow> char \<Rightarrow> nat \<Rightarrow> nat option \<Rightarrow> nat option" where
  "strrchr_from [] c i r = r"
| "strrchr_from (x # xs) c i r =
     (if x = NUL then r else strrchr_from xs c (Suc i) (if x = c then Some i else r))"

definition strrchr :: "string \<Rightarrow> char \<Rightarrow> nat option" where
  "strrchr s c = strrchr_from s c 0 None"

section \<open>Character arrays\<close>

definition cbuf_store :: "cbuf \<Rightarrow> nat \<Rightarrow> char \<Rightarrow> ub + cbuf" where
  "cbuf_store b i c = (if i < length b then Inr (b[i := Some c]) else Inl (Write_oob i))"

fun cbuf_store_str :: "cbuf \<Rightarrow> nat \<Rightarrow> string \<Rightarrow> ub + cbuf" where
  "cbuf_store_str b i [] = Inr b"
| "cbuf_store_str b i (c # cs) = ub_bind (cbuf_store b i c) (\<lambda>b'. cbuf_store_str b' (Suc i) cs)"

definition snprintf :: "cbuf \<Rightarrow> nat \<Rightarrow> nat \<Rightarrow> string \<Rightarrow> ub + (int \<times> cbuf)" where
  "snprintf b p n s =
     (if n = 0 then Inr (int (length s), b)
      else ub_bind (cbuf_store_str b p (take (n - 1) s @ [NUL])) (\<lambda>b'. Inr (int (length s), b')))"

text \<open>
  \<open>vsnprintf\<close> of the caller's format and arguments: the rendered text, or \<open>None\<close> when
  the conversion fails (an encoding error), where it returns a negative value.
\<close>

definition vsnprintf :: "cbuf \<Rightarrow> nat \<Rightarrow> nat \<Rightarrow> string option \<Rightarrow> ub + (int \<times> cbuf)" where
  "vsnprintf b p n m = (case m of None \<Rightarrow> Inr (-1, b) | Some s \<Rightarrow> snprintf b p n s)"

fun c_str :: "cbuf \<Rightarrow> ub + string" where
  "c_str [] = Inl Read_oob"
| "c_str (None # b) = Inl Read_uninit"
| "c_str (Some c # b) = (if c = NUL then Inr [] else ub_bind (c_str b) (\<lambda>s. Inr (c # s)))"

text \<open>
  Two views of an array against a text \<open>T\<close>: below \<open>n\<close> it holds exactly \<open>T\<close>
  (\<open>buf_exact\<close>); every cell is indeterminate, a terminator, or below \<open>n\<close> the
  character of \<open>T\<close> at that index (\<open>buf_holds\<close>).
\<close>

definition buf_exact :: "string \<Rightarrow> nat \<Rightarrow> cbuf \<Rightarrow> bool" where
  "buf_exact T n b \<longleftrightarrow> (\<forall>i < n. b ! i = Some (T ! i))"

definition buf_holds :: "string \<Rightarrow> nat \<Rightarrow> cbuf \<Rightarrow> bool" where
  "buf_holds T n b \<longleftrightarrow>
     (\<forall>i < length b. b ! i = None \<or> b ! i = Some NUL \<or> (i < n \<and> b ! i = Some (T ! i)))"

section \<open>The output stream\<close>

text \<open>
  \<open>stdout\<close>: the list of texts written so far, one per \<open>printf\<close> call, and whether the
  stream is in an error state, where every \<open>printf\<close> returns a negative value.
\<close>

record sink =
  sk_out :: "string list"
  sk_broken :: bool

definition printf_s :: "sink \<Rightarrow> string \<Rightarrow> int \<times> sink" where
  "printf_s sk s = (if sk_broken sk then (-1, sk) else (int (length s), sk\<lparr>sk_out := sk_out sk @ [s]\<rparr>))"

declare pad0_def [dbg_eval] fmt_u_def [dbg_eval] fmt_d_def [dbg_eval] fmt_06ld_def [dbg_eval]
  fmt_02x_def [dbg_eval] fmt_s_def [dbg_eval] c_div_def [dbg_eval] strrchr_def [dbg_eval]
  dec_digits.simps [dbg_eval] hex_digits.simps [dbg_eval] cbuf_store_def [dbg_eval]
  snprintf_def [dbg_eval] vsnprintf_def [dbg_eval] printf_s_def [dbg_eval]

section \<open>Reading conversions back\<close>

text \<open>
  Readers that invert the numeric conversions: an unsigned decimal, a signed one, and
  the \<open>"%ld.%06ld"\<close> text of \<open>%T\<close> (seconds, a point, exactly six digits).  They are
  the specification side of the round trips of the expander.
\<close>

definition dec_chars :: string where
  "dec_chars = ''0123456789''"

fun read_dec_acc :: "nat \<Rightarrow> string \<Rightarrow> nat" where
  "read_dec_acc a [] = a"
| "read_dec_acc a (c # cs) = read_dec_acc (10 * a + (of_char c - 48)) cs"

definition read_dec :: "string \<Rightarrow> nat option" where
  "read_dec s = (if s \<noteq> [] \<and> set s \<subseteq> set dec_chars then Some (read_dec_acc 0 s) else None)"

definition read_int :: "string \<Rightarrow> int option" where
  "read_int s =
     (if s \<noteq> [] \<and> hd s = CHR ''-'' then map_option (\<lambda>n. - int n) (read_dec (tl s))
      else map_option int (read_dec s))"

definition read_time :: "string \<Rightarrow> (int \<times> nat) option" where
  "read_time s =
     (let a = takeWhile (\<lambda>c. c \<noteq> CHR ''.'') s; f = drop (Suc (length a)) s in
      if s = a @ CHR ''.'' # f \<and> length f = 6 then
        (case read_int a of None \<Rightarrow> None | Some x \<Rightarrow> map_option (Pair x) (read_dec f))
      else None)"

declare dec_chars_def [dbg_eval] read_dec_def [dbg_eval] read_int_def [dbg_eval] read_time_def [dbg_eval]

section \<open>Lemmas\<close>

lemma NUL_notin_hexchars [simp]: "NUL \<notin> set hexchars"
  by (simp add: hexchars_def NUL_def)

lemma length_hexchars [simp]: "length hexchars = 16"
  by (simp add: hexchars_def)

lemma hexchars_nth_in [simp]: "n < 16 \<Longrightarrow> hexchars ! n \<in> set hexchars"
  by (simp add: nth_mem)

lemma dec_digits_set: "set (dec_digits n) \<subseteq> set hexchars"
  by (induction n rule: dec_digits.induct) (subst dec_digits.simps, auto)

lemma hex_digits_set: "set (hex_digits n) \<subseteq> set hexchars"
  by (induction n rule: hex_digits.induct) (subst hex_digits.simps, auto)

lemma NUL_notin_digits [simp]: "NUL \<notin> set (dec_digits n)" "NUL \<notin> set (hex_digits n)"
  using dec_digits_set hex_digits_set NUL_notin_hexchars by blast+

lemma hex_digits_length: "n < 16 ^ k \<Longrightarrow> 0 < k \<Longrightarrow> length (hex_digits n) \<le> k"
proof (induction n arbitrary: k rule: hex_digits.induct)
  case (1 n)
  show ?case
  proof (cases "n < 16")
    case True
    with "1.prems" show ?thesis by (subst hex_digits.simps) simp
  next
    case False
    then obtain k' where k: "k = Suc k'" and "0 < k'"
      using "1.prems" by (cases k; cases "k - 1") (auto simp: power_Suc)
    with "1.prems" have "n div 16 < 16 ^ k'" by (simp add: less_mult_imp_div_less)
    with "1.IH" False \<open>0 < k'\<close> k show ?thesis by (subst hex_digits.simps) simp
  qed
qed

lemma NUL_notin_fmt [simp]:
  "NUL \<notin> set (fmt_u n)" "NUL \<notin> set (fmt_d i)" "NUL \<notin> set (fmt_06ld i)"
  "NUL \<notin> set (fmt_02x n)" "NUL \<notin> set (fmt_s s)"
  by (auto simp: fmt_u_def fmt_d_def fmt_06ld_def fmt_02x_def pad0_def fmt_s_def
           dest: set_takeWhileD)

lemma cbuf_store_str_Inr [cbuf_facts]:
  "p + length s \<le> length b \<Longrightarrow>
   cbuf_store_str b p s = Inr (take p b @ map Some s @ drop (p + length s) b)"
proof (induction s arbitrary: b p)
  case Nil
  then show ?case by simp
next
  case (Cons c cs)
  then have "p < length b" by simp
  with Cons.prems Cons.IH [of "Suc p" "b[p := Some c]"] show ?case
    by (simp add: cbuf_store_def drop_update_cancel)
qed

lemma snprintf_Inr [cbuf_facts]:
  "p + n \<le> length b \<Longrightarrow>
   snprintf b p n s = Inr (int (length s),
     if n = 0 then b
     else take p b @ map Some (take (n - 1) s @ [NUL]) @ drop (p + min (length s) (n - 1) + 1) b)"
  by (auto simp: snprintf_def cbuf_store_str_Inr min_def)

lemma c_str_map_Some [cbuf_facts]:
  "c_str (map Some s @ Some NUL # r) = Inr (takeWhile (\<lambda>c. c \<noteq> NUL) s)"
  by (induction s) auto

lemma c_str_exact [cbuf_facts]:
  assumes "buf_exact T (length T) b" and "length T < length b" and "b ! length T = Some NUL"
  shows "c_str b = Inr (takeWhile (\<lambda>c. c \<noteq> NUL) T)"
proof -
  have "take (length T) b = map Some T"
    using assms(1,2) by (simp add: buf_exact_def list_eq_iff_nth_eq)
  moreover have "drop (length T) b = Some NUL # drop (Suc (length T)) b"
    using assms(2,3) by (simp add: drop_eq_nth_Cons)
  ultimately have "b = map Some T @ Some NUL # drop (Suc (length T)) b"
    by (metis append_take_drop_id)
  then show ?thesis by (metis c_str_map_Some)
qed

text \<open>
  What \<open>printf("%s", buf)\<close> prints from an array whose cells are either indeterminate,
  a terminator, or, below \<open>n\<close>, the characters of \<open>T\<close>: a prefix of \<open>T\<close> of length at
  most \<open>n\<close>.
\<close>

lemma c_str_prefix [cbuf_facts]:
  assumes "c_str b = Inr s" and "n \<le> length T" and "buf_holds T n b"
  shows "s = take (length s) T \<and> length s \<le> n \<and> length s < length b"
  using assms
proof (induction b arbitrary: s n T)
  case Nil
  then show ?case by simp
next
  case (Cons x b)
  show ?case
  proof (cases "x = Some NUL")
    case True
    with Cons.prems show ?thesis by simp
  next
    case False
    with Cons.prems(1) obtain c s' where x: "x = Some c" and c: "c \<noteq> NUL"
      and b: "c_str b = Inr s'" and s: "s = c # s'"
      by (cases x) (auto simp: ub_simps split: if_splits)
    from Cons.prems(3) [unfolded buf_holds_def, rule_format, of 0] x False have n: "0 < n" and T0: "c = T ! 0"
      by auto
    have inv: "buf_holds (tl T) (n - 1) b"
      unfolding buf_holds_def
    proof (intro allI impI)
      fix i assume "i < length b"
      with Cons.prems(3) [unfolded buf_holds_def, rule_format, of "Suc i"]
      show "b ! i = None \<or> b ! i = Some NUL \<or> (i < n - 1 \<and> b ! i = Some (tl T ! i))"
        using Cons.prems(2) by (cases T) auto
    qed
    have len: "n - 1 \<le> length (tl T)" using Cons.prems(2) by simp
    from Cons.IH [OF b len inv] n T0 s Cons.prems(2) show ?thesis
      by (cases T) auto
  qed
qed

lemma buf_holds_mono:
  assumes "buf_holds T n b" "n \<le> length T" "n \<le> m"
  shows "buf_holds (T @ x) m b"
  using assms by (fastforce simp: buf_holds_def nth_append)

lemma snprintf_holds:
  assumes h: "buf_holds T p b" and pT: "p = length T" and pn: "p + n = length b" and n: "0 < n"
    and snp: "snprintf b p n x = Inr (rc, b')"
  shows "length b' = length b \<and> buf_holds (T @ x) (p + min (length x) n) b'"
proof -
  let ?k = "min (length x) (n - 1)"
  define mid where "mid = map Some (take (n - 1) x @ [NUL])"
  have lmid: "length mid = ?k + 1" by (simp add: mid_def)
  have fits: "p + length mid \<le> length b" using lmid pn n by simp
  have b': "b' = take p b @ mid @ drop (p + length mid) b"
    using snp pn n by (simp add: snprintf_Inr mid_def)
  have len: "length b' = length b" using b' fits by simp
  have "buf_holds (T @ x) (p + min (length x) n) b'"
    unfolding buf_holds_def
  proof (intro allI impI)
    fix i assume i: "i < length b'"
    have nth: "b' ! i = (if i < p then b ! i else if i < p + length mid then mid ! (i - p) else b ! i)"
      using b' i len fits by (simp add: nth_splice)
    show "b' ! i = None \<or> b' ! i = Some NUL \<or>
          (i < p + min (length x) n \<and> b' ! i = Some ((T @ x) ! i))"
    proof (cases "i < p")
      case True
      with h i len pT show ?thesis by (auto simp: buf_holds_def nth nth_append)
    next
      case False
      show ?thesis
      proof (cases "i < p + length mid")
        case True
        with False pT lmid show ?thesis by (auto simp: nth nth_append mid_def min_def)
      next
        case c2: False
        with False h i len show ?thesis by (auto simp: buf_holds_def nth)
      qed
    qed
  qed
  with len show ?thesis by simp
qed

lemma snprintf_trunc:
  assumes e: "buf_exact T p b" and pT: "p = length T" and pn: "p + n \<le> length b" and n: "0 < n"
    and snp: "snprintf b p n x = Inr (rc, b')"
  shows "buf_exact (T @ take (n - 1) x) (p + min (length x) (n - 1)) b' \<and>
         b' ! (p + min (length x) (n - 1)) = Some NUL"
proof -
  define mid where "mid = map Some (take (n - 1) x @ [NUL])"
  have lm: "length mid = min (length x) (n - 1) + 1" by (simp add: mid_def)
  have fits: "p + length mid \<le> length b" using pn n lm by linarith
  have b': "b' = take p b @ mid @ drop (p + length mid) b"
    using snp pn n lm by (simp add: snprintf_Inr mid_def)
  have "b' ! i = (if i < p then b ! i else if i < p + length mid then mid ! (i - p) else b ! i)"
    if "i < length b" for i
    using b' that fits by (simp add: nth_splice)
  with e pT fits lm show ?thesis
    by (auto simp: buf_exact_def nth_append mid_def min_def)
qed

lemma snprintf_exact:
  assumes e: "buf_exact T p b" and pT: "p = length T" and pn: "p + n \<le> length b" and x: "length x < n"
    and snp: "snprintf b p n x = Inr (rc, b')"
  shows "buf_exact (T @ x) (p + length x) b' \<and> b' ! (p + length x) = Some NUL"
  using snprintf_trunc [OF e pT pn _ snp] x by simp

lemma cbuf_store_holds:
  assumes h: "buf_holds T p b" and pT: "p = length T" and st: "cbuf_store b p c = Inr b'"
  shows "length b' = length b \<and> p < length b \<and> buf_holds (T @ [c]) (Suc p) b' \<and>
         (buf_exact T p b \<longrightarrow> buf_exact (T @ [c]) (Suc p) b')"
proof -
  from st have p: "p < length b" and b': "b' = b[p := Some c]"
    by (auto simp: cbuf_store_def split: if_splits)
  have "buf_holds (T @ [c]) (Suc p) b'"
    unfolding buf_holds_def
  proof (intro allI impI)
    fix i assume "i < length b'"
    with h [unfolded buf_holds_def, rule_format, of i] p pT b'
    show "b' ! i = None \<or> b' ! i = Some NUL \<or> (i < Suc p \<and> b' ! i = Some ((T @ [c]) ! i))"
      by (cases "i = p") (auto simp: nth_append)
  qed
  moreover have "buf_exact T p b \<longrightarrow> buf_exact (T @ [c]) (Suc p) b'"
    using p pT b' by (auto simp: buf_exact_def nth_append less_Suc_eq)
  ultimately show ?thesis using p b' by simp
qed


lemma c_str_uninit:
  assumes "\<forall>i < k. b ! i \<noteq> None \<and> b ! i \<noteq> Some NUL" and "k < length b" and "b ! k = None"
  shows "c_str b = Inl Read_uninit"
  using assms
proof (induction b arbitrary: k)
  case Nil
  then show ?case by simp
next
  case (Cons x b)
  show ?case
  proof (cases k)
    case 0
    with Cons.prems show ?thesis by simp
  next
    case (Suc k')
    from Cons.prems(1) [rule_format, of 0] Suc obtain c where x: "x = Some c" and c: "c \<noteq> NUL"
      by (cases x) auto
    have "c_str b = Inl Read_uninit"
      using Cons.prems Suc by (intro Cons.IH [of k']) auto
    with x c show ?thesis by simp
  qed
qed

lemma snprintf_below:
  "p + n \<le> length b \<Longrightarrow> snprintf b p n x = Inr (rc, b') \<Longrightarrow> i < p \<Longrightarrow> b' ! i = b ! i"
  by (auto simp: snprintf_Inr nth_append split: if_splits)

lemma strrchr_from_last:
  "NUL \<notin> set xs \<Longrightarrow> strrchr_from xs c i r =
     (if c \<in> set xs then Some (i + length xs - Suc (length (takeWhile (\<lambda>x. x \<noteq> c) (rev xs)))) else r)"
proof (induction xs arbitrary: i r)
  case Nil
  then show ?case by simp
next
  case (Cons x xs)
  have tw: "length (takeWhile (\<lambda>y. y \<noteq> c) (rev xs)) < length xs" if "c \<in> set xs"
    using that length_takeWhile_less [of c "rev xs" "\<lambda>y. y \<noteq> c"] by simp
  show ?case
  proof (cases "c \<in> set xs")
    case True
    with Cons tw [OF True] show ?thesis by (auto simp: takeWhile_append1)
  next
    case False
    then have "takeWhile (\<lambda>y. y \<noteq> c) (rev xs @ [x]) = rev xs @ takeWhile (\<lambda>y. y \<noteq> c) [x]"
      by (intro takeWhile_append2) auto
    with Cons False show ?thesis by auto
  qed
qed

lemma fmt_02x_u8_length [simp]: "length (fmt_02x (unat (x :: u8))) = 2"
proof -
  have "unat x < 16 ^ 2" using unsigned_less [of x, where ?'a = nat] by simp
  from hex_digits_length [OF this] show ?thesis
    by (cases "hex_digits (unat x)") (auto simp: fmt_02x_def pad0_def hex_digits.simps split: if_splits)
qed

lemma fmt_02x_u32_length: "length (fmt_02x (unat (i :: u32))) \<le> 8"
proof -
  have "unat i < 16 ^ 8" using unat_u32_less [of i] by simp
  from hex_digits_length [OF this] show ?thesis by (simp add: fmt_02x_def pad0_def)
qed

lemma fmt_02x_length_le: "n < 2 ^ 32 \<Longrightarrow> length (fmt_02x n) \<le> 8"
proof -
  assume "n < 2 ^ 32"
  then have "n < 16 ^ 8" by simp
  from hex_digits_length [OF this] show ?thesis by (simp add: fmt_02x_def pad0_def)
qed

text \<open>A terminated array whose cells below the terminator are all written can be printed.\<close>

lemma c_str_some:
  "\<forall>j < p. b ! j \<noteq> None \<and> b ! j \<noteq> Some NUL \<Longrightarrow> p < length b \<Longrightarrow> b ! p = Some NUL \<Longrightarrow>
   \<exists>out. c_str b = Inr out"
proof (induction b arbitrary: p)
  case Nil
  then show ?case by simp
next
  case (Cons x b)
  show ?case
  proof (cases p)
    case 0
    with Cons.prems show ?thesis by simp
  next
    case (Suc p')
    from Cons.prems(1) [rule_format, of 0] Suc obtain c where x: "x = Some c" and c: "c \<noteq> NUL"
      by (cases x) auto
    have "\<exists>out. c_str b = Inr out" using Cons.prems Suc by (intro Cons.IH [of p']) auto
    with x c show ?thesis by auto
  qed
qed

section \<open>Round trips of the conversions\<close>

lemma read_dec_acc_append: "read_dec_acc a (xs @ ys) = read_dec_acc (read_dec_acc a xs) ys"
  by (induction xs arbitrary: a) simp_all

lemma hexchars_dec: "n < 10 \<Longrightarrow> hexchars ! n \<in> set dec_chars \<and> of_char (hexchars ! n) - 48 = n"
  by (auto simp: hexchars_def dec_chars_def less_Suc_eq numeral_eq_Suc)

lemma dec_digits_dec: "set (dec_digits n) \<subseteq> set dec_chars"
  by (induction n rule: dec_digits.induct) (subst dec_digits.simps, auto simp: hexchars_dec)

lemma dec_digits_ne: "dec_digits n \<noteq> []"
  by (subst dec_digits.simps) simp

lemma read_dec_acc_digits: "read_dec_acc 0 (dec_digits n) = n"
proof (induction n rule: dec_digits.induct)
  case (1 n)
  show ?case
  proof (cases "n < 10")
    case True
    then show ?thesis by (subst dec_digits.simps) (simp add: hexchars_dec)
  next
    case False
    with "1.IH" show ?thesis
      by (subst dec_digits.simps) (simp add: read_dec_acc_append hexchars_dec)
  qed
qed

lemma read_dec_digits: "read_dec (dec_digits n) = Some n"
  by (simp add: read_dec_def dec_digits_ne dec_digits_dec read_dec_acc_digits)

lemma read_dec_acc_zeros: "read_dec_acc 0 (replicate k (CHR ''0'') @ s) = read_dec_acc 0 s"
  by (induction k) simp_all

lemma read_dec_pad0: "read_dec (pad0 w (dec_digits n)) = Some n"
  using dec_digits_ne [of n] dec_digits_dec [of n]
  by (simp add: read_dec_def pad0_def read_dec_acc_zeros read_dec_acc_digits dec_chars_def set_replicate_conv_if)

lemma dec_digits_length: "n < 10 ^ k \<Longrightarrow> 0 < k \<Longrightarrow> length (dec_digits n) \<le> k"
proof (induction n arbitrary: k rule: dec_digits.induct)
  case (1 n)
  show ?case
  proof (cases "n < 10")
    case True
    with "1.prems" show ?thesis by (subst dec_digits.simps) simp
  next
    case False
    then obtain k' where k: "k = Suc k'" and "0 < k'"
      using "1.prems" by (cases k; cases "k - 1") (auto simp: power_Suc)
    with "1.prems" have "n div 10 < 10 ^ k'" by (simp add: less_mult_imp_div_less)
    with "1.IH" False \<open>0 < k'\<close> k show ?thesis by (subst dec_digits.simps) simp
  qed
qed

lemma dec_digits_hd: "hd (dec_digits n) \<noteq> CHR ''-''"
proof -
  have "hd (dec_digits n) \<in> set dec_chars"
    using dec_digits_ne [of n] dec_digits_dec [of n] by (meson hd_in_set subsetD)
  then show ?thesis by (auto simp: dec_chars_def)
qed

lemma read_int_fmt_d: "read_int (fmt_d i) = Some i"
  by (simp add: read_int_def fmt_d_def read_dec_digits dec_digits_hd dec_digits_ne)

lemma fmt_d_no_dot: "CHR ''.'' \<notin> set (fmt_d i)"
  using dec_digits_dec [of "nat (- i)"] dec_digits_dec [of "nat i"]
  by (auto simp: fmt_d_def dec_chars_def)

lemma fmt_06ld_micro: "0 \<le> k \<Longrightarrow> k < 10 ^ 6 \<Longrightarrow>
    length (fmt_06ld k) = 6 \<and> read_dec (fmt_06ld k) = Some (nat k)"
  using dec_digits_length [of "nat k" 6]
  by (simp add: fmt_06ld_def pad0_def read_dec_pad0 [unfolded pad0_def] nat_less_iff)

lemma read_time_fmt:
  assumes "0 \<le> k" "k < 10 ^ 6"
  shows "read_time (fmt_d sec @ ''.'' @ fmt_06ld k) = Some (sec, nat k)"
proof -
  have tw: "takeWhile (\<lambda>c. c \<noteq> CHR ''.'') (fmt_d sec @ ''.'' @ fmt_06ld k) = fmt_d sec"
    using fmt_d_no_dot [of sec] by (subst takeWhile_append2) auto
  with fmt_06ld_micro [OF assms] show ?thesis
    by (simp add: read_time_def Let_def read_int_fmt_d)
qed

lemma c_div_1000: "0 \<le> n \<Longrightarrow> n < 10 ^ 9 \<Longrightarrow> c_div n 1000 = n div 1000 \<and> 0 \<le> n div 1000 \<and> n div 1000 < 10 ^ 6"
  by (auto simp: c_div_def sgn_if)

text \<open>What \<open>snprintf\<close> leaves outside \<open>[p, p + n)\<close> and writes inside.\<close>

lemma snprintf_frame:
  assumes "p + n \<le> length b" and "snprintf b p n x = Inr (rc, b')"
  shows "rc = int (length x) \<and> length b' = length b \<and> (\<forall>i. i < p \<or> p + n \<le> i \<longrightarrow> b' ! i = b ! i) \<and>
         (\<forall>i < min (length x) (n - 1). b' ! (p + i) = Some (x ! i))"
  using assms by (auto simp: snprintf_Inr nth_append min_def split: if_splits)

end
