(* ===== verification/Dbg_Expander.thy ===== *)
theory Dbg_Expander
  imports Libc
begin

text \<open>
  The header template expander, \<open>dbg_add_hdr\<close> of \<^verbatim>\<open>src/dbg.c\<close>: given the index of a
  \<open>%\<close> in the template, it reads the selector character after it, writes the selector's
  text into the output array through \<open>snprintf\<close> (or, for \<open>%%\<close>, by a direct store) and
  returns the text's full length.  Beside the code model sits the abstract specification
  of a template: a list of literal characters and directives (\<open>hdr_tokens\<close>), each
  directive expanding to a text (\<open>directive_text\<close>), the whole header to \<open>hdr_text\<close>.
\<close>

section \<open>Process and clock environment\<close>

record dbg_env =
  env_pid :: s32                      \<comment> \<open>\<open>getpid()\<close>\<close>
  env_tid :: s32                      \<comment> \<open>\<open>gettid()\<close>\<close>
  env_clock :: "(int \<times> int) option"  \<comment> \<open>\<open>clock_gettime(CLOCK_MONOTONIC)\<close>: \<open>(tv_sec, tv_nsec)\<close>, \<open>None\<close> if it fails\<close>
  env_has_gettid :: bool              \<comment> \<open>\<open>HAS_GETTID\<close>, defined on \<open>__linux__\<close>\<close>

section \<open>The code\<close>

text \<open>Reading the template array \<open>hdr\<close>: its characters, then the terminator, then nothing.\<close>

definition tpl_at :: "string \<Rightarrow> nat \<Rightarrow> ub + char" where
  "tpl_at t i = (if i < length t then Inr (t ! i) else if i = length t then Inr NUL else Inl Read_oob)"

definition basename :: "string \<Rightarrow> string" where
  "basename file = (case strrchr file (CHR ''/'') of None \<Rightarrow> file | Some k \<Rightarrow> drop (Suc k) file)"

text \<open>
  \<open>dbg_add_hdr(&hdr, p, remaining, file, func, lineno)\<close>: the template index \<open>h\<close> points
  at the \<open>%\<close>; the result is the return code, the advanced index \<open>h + 1\<close> and the array.
  The \<open>clock_gettime\<close> result is overwritten unchecked, so on failure \<open>now\<close> is read
  uninitialised.
\<close>

definition dbg_add_hdr ::
  "dbg_env \<Rightarrow> string \<Rightarrow> nat \<Rightarrow> cbuf \<Rightarrow> nat \<Rightarrow> int \<Rightarrow> string \<Rightarrow> string \<Rightarrow> u32 \<Rightarrow> ub + (int \<times> nat \<times> cbuf)"
where
  "dbg_add_hdr env hdr h b p remaining file func lineno =
     ub_bind (tpl_at hdr (Suc h)) (\<lambda>c.
       let put = (\<lambda>s. ub_bind (snprintf b p (size_of_int remaining) s) (\<lambda>(rc, b'). Inr (rc, Suc h, b')))
       in if c = CHR ''%'' then ub_bind (cbuf_store b p (CHR ''%'')) (\<lambda>b'. Inr (1, Suc h, b'))
          else if c = CHR ''B'' then put (fmt_s (basename file))
          else if c = CHR ''f'' then put (fmt_s func)
          else if c = CHR ''F'' then put (fmt_s file)
          else if c = CHR ''l'' then put (fmt_u (unat lineno))
          else if c = CHR ''p'' then put (fmt_d (sint (env_pid env)))
          else if c = CHR ''t'' \<and> env_has_gettid env then put (fmt_d (sint (env_tid env)))
          else if c = CHR ''T'' then
            (case env_clock env of
               None \<Rightarrow> Inl Read_uninit
             | Some (sec, nsec) \<Rightarrow> put (fmt_d sec @ ''.'' @ fmt_06ld (c_div nsec 1000)))
          else Inr (0, Suc h, b))"

declare tpl_at_def [dbg_eval] basename_def [dbg_eval] dbg_add_hdr_def [dbg_eval]

section \<open>The specification of a template\<close>

datatype hdr_tok = Lit char | Dir char

text \<open>
  A template is read up to its terminator; \<open>%\<close> takes the next character as selector,
  even a terminator inside the array; a \<open>%\<close> that is the last character takes the
  terminator as selector, and the scan then continues past the end of the string.
\<close>

fun hdr_tokens :: "string \<Rightarrow> ub + hdr_tok list" where
  "hdr_tokens [] = Inr []"
| "hdr_tokens (c # cs) =
     (if c = NUL then Inr []
      else if c = CHR ''%'' then
        (case cs of [] \<Rightarrow> Inl Read_oob | d # ds \<Rightarrow> ub_bind (hdr_tokens ds) (\<lambda>ts. Inr (Dir d # ts)))
      else ub_bind (hdr_tokens cs) (\<lambda>ts. Inr (Lit c # ts)))"

text \<open>The text of each directive of the header documentation in \<^verbatim>\<open>src/include/dbg.h\<close>.\<close>

definition directive_text :: "dbg_env \<Rightarrow> string \<Rightarrow> string \<Rightarrow> u32 \<Rightarrow> char \<Rightarrow> ub + string" where
  "directive_text env file func lineno c =
     (if c = CHR ''%'' then Inr ''%''
      else if c = CHR ''B'' then Inr (fmt_s (basename file))
      else if c = CHR ''f'' then Inr (fmt_s func)
      else if c = CHR ''F'' then Inr (fmt_s file)
      else if c = CHR ''l'' then Inr (fmt_u (unat lineno))
      else if c = CHR ''p'' then Inr (fmt_d (sint (env_pid env)))
      else if c = CHR ''t'' \<and> env_has_gettid env then Inr (fmt_d (sint (env_tid env)))
      else if c = CHR ''T'' then
        (case env_clock env of
           None \<Rightarrow> Inl Read_uninit
         | Some (sec, nsec) \<Rightarrow> Inr (fmt_d sec @ ''.'' @ fmt_06ld (c_div nsec 1000)))
      else Inr [])"

fun expand_toks :: "dbg_env \<Rightarrow> string \<Rightarrow> string \<Rightarrow> u32 \<Rightarrow> hdr_tok list \<Rightarrow> ub + string" where
  "expand_toks env file func lineno [] = Inr []"
| "expand_toks env file func lineno (Lit c # ts) =
     ub_bind (expand_toks env file func lineno ts) (\<lambda>r. Inr (c # r))"
| "expand_toks env file func lineno (Dir d # ts) =
     ub_bind (directive_text env file func lineno d) (\<lambda>s.
       ub_bind (expand_toks env file func lineno ts) (\<lambda>r. Inr (s @ r)))"

text \<open>The header text a template expands to, from template index \<open>h\<close> on.\<close>

definition hdr_text_from :: "dbg_env \<Rightarrow> string \<Rightarrow> string \<Rightarrow> u32 \<Rightarrow> string \<Rightarrow> nat \<Rightarrow> ub + string" where
  "hdr_text_from env file func lineno t h =
     ub_bind (hdr_tokens (drop h t)) (expand_toks env file func lineno)"

declare directive_text_def [dbg_eval] hdr_text_from_def [dbg_eval]

abbreviation hdr_text :: "dbg_env \<Rightarrow> string \<Rightarrow> string \<Rightarrow> u32 \<Rightarrow> string \<Rightarrow> ub + string" where
  "hdr_text env file func lineno t \<equiv> hdr_text_from env file func lineno t 0"

section \<open>Lemmas\<close>

lemma tpl_at_beyond: "length t < i \<Longrightarrow> tpl_at t i = Inl Read_oob"
  by (simp add: tpl_at_def)

text \<open>
  The three shapes of \<open>dbg_add_hdr\<close> once the selector and its text are known: a direct
  store of \<open>%\<close>, an \<open>snprintf\<close> of the text, or nothing (an unknown selector).
\<close>

lemma dbg_add_hdr_tpl_err:
  "tpl_at hdr (Suc h) = Inl e \<Longrightarrow> dbg_add_hdr env hdr h b p r file func lineno = Inl e"
  by (simp add: dbg_add_hdr_def)

lemma dbg_add_hdr_text_err:
  "tpl_at hdr (Suc h) = Inr c \<Longrightarrow> directive_text env file func lineno c = Inl e \<Longrightarrow>
   dbg_add_hdr env hdr h b p r file func lineno = Inl e"
  by (auto simp: dbg_add_hdr_def directive_text_def split: if_splits option.splits)

lemma dbg_add_hdr_eq:
  "tpl_at hdr (Suc h) = Inr c \<Longrightarrow> directive_text env file func lineno c = Inr x \<Longrightarrow>
   dbg_add_hdr env hdr h b p r file func lineno =
     (if c = CHR ''%'' then ub_bind (cbuf_store b p (CHR ''%'')) (\<lambda>b'. Inr (1, Suc h, b'))
      else if c \<in> {CHR ''B'', CHR ''f'', CHR ''F'', CHR ''l'', CHR ''p'', CHR ''T''}
              \<or> (c = CHR ''t'' \<and> env_has_gettid env)
      then ub_bind (snprintf b p (size_of_int r) x) (\<lambda>(rc, b'). Inr (rc, Suc h, b'))
      else Inr (0, Suc h, b))"
  by (auto simp: dbg_add_hdr_def directive_text_def Let_def split: if_splits option.splits)

text \<open>A directive always moves the template index to its selector.\<close>

lemma dbg_add_hdr_next:
  assumes "dbg_add_hdr env hdr h b p r fname func lineno = Inr (rc, h', b')"
  shows "h' = Suc h"
proof (cases "tpl_at hdr (Suc h)")
  case (Inl e)
  with assms show ?thesis by (simp add: dbg_add_hdr_tpl_err)
next
  case (Inr c)
  show ?thesis
  proof (cases "directive_text env fname func lineno c")
    case (Inl e)
    with Inr assms show ?thesis by (simp add: dbg_add_hdr_text_err)
  next
    case (Inr x)
    with \<open>tpl_at hdr (Suc h) = Inr c\<close> assms show ?thesis
      by (auto simp: dbg_add_hdr_eq ub_bind_eq_Inr split: if_splits prod.splits)
  qed
qed

lemma hdr_text_from_end:
  assumes "tpl_at t h = Inr NUL"
  shows "hdr_text_from env file func lineno t h = Inr []"
proof (cases "h < length t")
  case True
  with assms have "drop h t = NUL # drop (Suc h) t"
    by (simp add: tpl_at_def drop_eq_nth_Cons)
  then show ?thesis by (simp add: hdr_text_from_def)
next
  case False
  then show ?thesis by (simp add: hdr_text_from_def)
qed

lemma hdr_text_from_lit:
  assumes "tpl_at t h = Inr c" and "c \<noteq> NUL" and "c \<noteq> CHR ''%''"
  shows "hdr_text_from env file func lineno t h =
     ub_bind (hdr_text_from env file func lineno t (Suc h)) (\<lambda>R. Inr (c # R))"
proof -
  from assms have "drop h t = c # drop (Suc h) t"
    by (auto simp: tpl_at_def drop_eq_nth_Cons split: if_splits)
  with assms(2,3) show ?thesis
    by (cases "hdr_tokens (drop (Suc h) t)") (simp_all add: hdr_text_from_def)
qed

lemma hdr_text_from_dir:
  assumes "tpl_at t h = Inr (CHR ''%'')" and "Suc h < length t"
  shows "hdr_text_from env file func lineno t h = Inr R \<longleftrightarrow>
     (\<exists>x R'. directive_text env file func lineno (t ! Suc h) = Inr x \<and>
        hdr_text_from env file func lineno t (Suc (Suc h)) = Inr R' \<and> R = x @ R')"
proof -
  from assms have "drop h t = CHR ''%'' # t ! Suc h # drop (Suc (Suc h)) t"
    by (auto simp: tpl_at_def drop_eq_nth_Cons split: if_splits)
  then show ?thesis
    by (cases "hdr_tokens (drop (Suc (Suc h)) t)")
       (auto simp: hdr_text_from_def ub_bind_eq_Inr)
qed

lemma hdr_text_from_trailing:
  assumes "tpl_at t h = Inr (CHR ''%'')" and "Suc h = length t"
  shows "hdr_text_from env file func lineno t h = Inl Read_oob"
proof -
  from assms have "drop h t = [CHR ''%'']"
    by (auto simp: tpl_at_def Cons_nth_drop_Suc [symmetric] split: if_splits)
  then show ?thesis by (simp add: hdr_text_from_def)
qed

text \<open>Header texts never contain a terminator: \<open>printf("%s")\<close> shows all of them.\<close>

lemma directive_text_NUL: "directive_text env fname func lineno c = Inr x \<Longrightarrow> NUL \<notin> set x"
  by (auto simp: directive_text_def split: if_splits option.splits)

lemma hdr_tokens_no_Lit_NUL: "hdr_tokens t = Inr ts \<Longrightarrow> Lit NUL \<notin> set ts"
  by (induction t arbitrary: ts rule: hdr_tokens.induct)
     (auto simp: ub_bind_eq_Inr split: if_splits list.splits)

lemma expand_toks_NUL:
  "Lit NUL \<notin> set ts \<Longrightarrow> expand_toks env fname func lineno ts = Inr H \<Longrightarrow> NUL \<notin> set H"
  by (induction env fname func lineno ts arbitrary: H rule: expand_toks.induct)
     (auto simp: ub_bind_eq_Inr dest: directive_text_NUL)

lemma hdr_text_from_NUL: "hdr_text_from env fname func lineno t h = Inr H \<Longrightarrow> NUL \<notin> set H"
  by (auto simp: hdr_text_from_def ub_bind_eq_Inr dest: hdr_tokens_no_Lit_NUL expand_toks_NUL)

text \<open>
  Token lists of a well-formed prefix and the rest concatenate; an unknown directive
  contributes nothing to the header text.
\<close>

lemma hdr_tokens_append:
  "hdr_tokens t1 = Inr ts \<Longrightarrow> NUL \<notin> set t1 \<Longrightarrow>
   hdr_tokens (t1 @ t2) = ub_bind (hdr_tokens t2) (\<lambda>rs. Inr (ts @ rs))"
proof (induction t1 arbitrary: ts rule: hdr_tokens.induct)
  case 1
  then show ?case by (cases "hdr_tokens t2") simp_all
next
  case (2 c cs)
  show ?case
  proof (cases "c = CHR ''%''")
    case True
    with "2.prems" obtain d ds ts' where cs: "cs = d # ds" and ds: "hdr_tokens ds = Inr ts'"
      and ts: "ts = Dir d # ts'"
      by (auto simp: ub_bind_eq_Inr split: list.splits)
    with "2.IH"(1) [OF _ True cs ds] "2.prems"(2) True show ?thesis
      by (cases "hdr_tokens t2") (auto simp: NUL_def)
  next
    case False
    with "2.prems" obtain ts' where cs: "hdr_tokens cs = Inr ts'" and ts: "ts = Lit c # ts'"
      by (auto simp: ub_bind_eq_Inr split: if_splits)
    with "2.IH"(2) [OF _ False cs] "2.prems"(2) False show ?thesis
      by (cases "hdr_tokens t2") auto
  qed
qed

lemma expand_toks_append:
  "expand_toks env fl fn lineno (ts @ rs) =
     ub_bind (expand_toks env fl fn lineno ts) (\<lambda>a.
       ub_bind (expand_toks env fl fn lineno rs) (\<lambda>b. Inr (a @ b)))"
  by (induction env fl fn lineno ts rule: expand_toks.induct)
     (auto simp: ub_bind_def split: sum.splits)

lemma hdr_text_tokens: "hdr_text env file func lineno t = Inr H \<Longrightarrow> \<exists>ts. hdr_tokens t = Inr ts"
  by (cases "hdr_tokens t") (simp_all add: hdr_text_from_def)

lemma hdr_text_dir_split:
  assumes "hdr_tokens t1 = Inr ts" and "NUL \<notin> set t1" and "hdr_tokens t2 = Inr ts2"
  shows "hdr_text env file func lineno (t1 @ CHR ''%'' # q # t2) =
     ub_bind (hdr_text env file func lineno t1) (\<lambda>a.
       ub_bind (directive_text env file func lineno q) (\<lambda>d.
         ub_bind (hdr_text env file func lineno t2) (\<lambda>b. Inr (a @ d @ b))))"
  using assms
  by (auto simp: hdr_text_from_def hdr_tokens_append expand_toks_append ub_bind_def split: sum.splits)

lemma hdr_text_unknown_dir:
  assumes "hdr_tokens t1 = Inr ts" and "NUL \<notin> set t1"
    and "q \<notin> {CHR ''%'', CHR ''B'', CHR ''f'', CHR ''F'', CHR ''l'', CHR ''p'', CHR ''T''}"
    and "\<not> (q = CHR ''t'' \<and> env_has_gettid env)"
  shows "hdr_text env file func lineno (t1 @ CHR ''%'' # q # t2) = hdr_text env file func lineno (t1 @ t2)"
proof -
  have "directive_text env file func lineno q = Inr []"
    using assms(3,4) by (auto simp: directive_text_def)
  with assms(1,2) show ?thesis
    by (auto simp: hdr_text_from_def hdr_tokens_append expand_toks_append ub_bind_def split: sum.splits)
qed

lemma hdr_text_literal:
  assumes "\<forall>c \<in> set t. c \<noteq> CHR ''%'' \<and> c \<noteq> NUL"
  shows "hdr_text env file func lineno t = Inr t"
proof -
  have "hdr_tokens t = Inr (map Lit t)" using assms by (induction t) simp_all
  moreover have "expand_toks env file func lineno (map Lit xs) = Inr xs" for xs
    by (induction xs) simp_all
  ultimately show ?thesis by (simp add: hdr_text_from_def)
qed

text \<open>
  With room for its text, a directive handled by \<open>snprintf\<close> leaves at \<open>p\<close> a C string
  that is exactly its text, and returns that text's length.
\<close>

lemma dbg_add_hdr_stores:
  assumes c: "tpl_at hdr (Suc h) = Inr c"
    and known: "c \<in> {CHR ''B'', CHR ''f'', CHR ''F'', CHR ''l'', CHR ''p'', CHR ''T''} \<or> (c = CHR ''t'' \<and> env_has_gettid env)"
    and x: "directive_text env fname func lineno c = Inr x"
    and r: "0 \<le> r" "r \<le> INT_MAX" and fits: "p + nat r \<le> length b"
    and run: "dbg_add_hdr env hdr h b p r fname func lineno = Inr (rc, h', b')" and room: "rc < r"
  shows "rc = int (length x) \<and> c_str (drop p b') = Inr x"
proof -
  have sz: "size_of_int r = nat r" using r by (simp add: INT_MAX_def)
  have pct: "c \<noteq> CHR ''%''" using known by auto
  from run c x pct known sz have snp: "snprintf b p (nat r) x = Inr (rc, b')"
    by (auto simp: dbg_add_hdr_eq ub_bind_eq_Inr)
  then have rc: "rc = int (length x)" using fits by (simp add: snprintf_Inr)
  with room have lx: "length x < nat r" by simp
  with snp fits have "drop p b' = map Some (x @ [NUL]) @ drop (p + length x + 1) b"
    by (auto simp: snprintf_Inr min_def)
  moreover have "takeWhile (\<lambda>ch. ch \<noteq> NUL) x = x"
    using directive_text_NUL [OF x] by (auto simp: takeWhile_eq_all_conv)
  ultimately show ?thesis using rc by (simp add: c_str_map_Some)
qed

section \<open>Properties of the expander\<close>

text \<open>
  C26: the contract of the comment above \<open>dbg_add_hdr\<close>: for every selector but \<open>%\<close>,
  it returns the length of the selector's text, which may exceed \<open>remaining\<close>, stores
  at \<open>p\<close> no more of it than fits in \<open>remaining - 1\<close> characters, and leaves every
  cell of the array outside \<open>[p, p + remaining)\<close> as it was.
\<close>

theorem dbg_add_hdr_bounded:
  assumes c: "tpl_at hdr (Suc h) = Inr c" and pct: "c \<noteq> CHR ''%''"
    and x: "directive_text env fname func lineno c = Inr x"
    and r: "0 \<le> r" "r \<le> INT_MAX" and fits: "p + nat r \<le> length b"
    and run: "dbg_add_hdr env hdr h b p r fname func lineno = Inr (rc, h', b')"
  shows "rc = int (length x) \<and> h' = Suc h \<and> length b' = length b \<and>
     (\<forall>i. i < p \<or> p + nat r \<le> i \<longrightarrow> b' ! i = b ! i) \<and>
     (\<forall>i < min (length x) (nat r - 1). b' ! (p + i) = Some (x ! i))"
proof -
  have sz: "size_of_int r = nat r" using r by (simp add: INT_MAX_def)
  show ?thesis
  proof (cases "c \<in> {CHR ''B'', CHR ''f'', CHR ''F'', CHR ''l'', CHR ''p'', CHR ''T''} \<or> (c = CHR ''t'' \<and> env_has_gettid env)")
    case True
    with run c x pct sz obtain rc' where "snprintf b p (nat r) x = Inr (rc', b')" "rc = rc'" "h' = Suc h"
      by (auto simp: dbg_add_hdr_eq ub_bind_eq_Inr)
    with snprintf_frame [OF fits] show ?thesis by blast
  next
    case False
    with x pct have "x = []" by (auto simp: directive_text_def split: if_splits)
    with False run c x pct show ?thesis by (auto simp: dbg_add_hdr_eq)
  qed
qed

text \<open>
  C27: the numbers in a header read back.  With room for the text, what \<open>dbg_add_hdr\<close>
  leaves at \<open>p\<close> for \<open>%l\<close> is the line number in decimal, for \<open>%p\<close> and \<open>%t\<close> the
  process and thread ids, and for \<open>%T\<close> of a valid \<open>timespec\<close> the seconds, a point
  and exactly six digits of microseconds, the "monotonic seconds.microseconds" of the
  specification.
\<close>

theorem dbg_add_hdr_numbers_roundtrip:
  assumes c: "tpl_at hdr (Suc h) = Inr c"
    and sel: "c \<in> {CHR ''l'', CHR ''p'', CHR ''t'', CHR ''T''}" and tid: "c = CHR ''t'' \<longrightarrow> env_has_gettid env"
    and clk: "env_clock env = Some (sec, nsec)" and ns: "0 \<le> nsec" "nsec < 10 ^ 9"
    and r: "0 \<le> r" "r \<le> INT_MAX" and fits: "p + nat r \<le> length b"
    and run: "dbg_add_hdr env hdr h b p r fname func lineno = Inr (rc, h', b')" and room: "rc < r"
  shows "\<exists>s. c_str (drop p b') = Inr s \<and> rc = int (length s) \<and>
     (c = CHR ''l'' \<longrightarrow> read_dec s = Some (unat lineno)) \<and>
     (c = CHR ''p'' \<longrightarrow> read_int s = Some (sint (env_pid env))) \<and>
     (c = CHR ''t'' \<longrightarrow> read_int s = Some (sint (env_tid env))) \<and>
     (c = CHR ''T'' \<longrightarrow> read_time s = Some (sec, nat nsec div 1000))"
proof -
  obtain x where x: "directive_text env fname func lineno c = Inr x"
    using sel clk tid by (auto simp: directive_text_def)
  have known: "c \<in> {CHR ''B'', CHR ''f'', CHR ''F'', CHR ''l'', CHR ''p'', CHR ''T''} \<or> (c = CHR ''t'' \<and> env_has_gettid env)"
    using sel tid by auto
  from dbg_add_hdr_stores [OF c known x r fits run room]
  have st: "rc = int (length x) \<and> c_str (drop p b') = Inr x" .
  have cd: "c_div nsec 1000 = nsec div 1000" "0 \<le> nsec div 1000" "nsec div 1000 < 10 ^ 6"
    using c_div_1000 [OF ns] by simp_all
  have "nat (nsec div 1000) = nat nsec div 1000" using ns by (simp add: nat_div_distrib)
  with read_time_fmt [OF cd(2,3), of sec]
  have tm: "read_time (fmt_d sec @ ''.'' @ fmt_06ld (nsec div 1000)) = Some (sec, nat nsec div 1000)" by simp
  from x sel tid clk cd(1) tm have "(c = CHR ''l'' \<longrightarrow> read_dec x = Some (unat lineno)) \<and>
     (c = CHR ''p'' \<longrightarrow> read_int x = Some (sint (env_pid env))) \<and>
     (c = CHR ''t'' \<longrightarrow> read_int x = Some (sint (env_tid env))) \<and>
     (c = CHR ''T'' \<longrightarrow> read_time x = Some (sec, nat nsec div 1000))"
    by (auto simp: directive_text_def fmt_u_def read_dec_digits read_int_fmt_d read_time_fmt)
  with st show ?thesis by blast
qed


text \<open>
  C7: an unknown selector (anything but \<open>% B f F l p T\<close>, and \<open>t\<close> where \<open>gettid\<close>
  exists) is not an error: \<open>dbg_add_hdr\<close> returns 0, advances past the selector and
  leaves the array untouched.
\<close>

theorem dbg_add_hdr_unknown:
  assumes "tpl_at hdr (Suc h) = Inr c"
    and "c \<notin> {CHR ''%'', CHR ''B'', CHR ''f'', CHR ''F'', CHR ''l'', CHR ''p'', CHR ''T''}"
    and "\<not> (c = CHR ''t'' \<and> env_has_gettid env)"
  shows "dbg_add_hdr env hdr h b p r fname func lineno = Inr (0, Suc h, b)"
  using assms by (auto simp: dbg_add_hdr_def)

theorem dbg_add_hdr_unknown_witness:
  "dbg_add_hdr \<lparr>env_pid = 100, env_tid = 101, env_clock = None, env_has_gettid = False\<rparr>
     ''%Q%t'' 0 (replicate 256 None) 0 256 ''dbg.c'' ''main'' 7 = Inr (0, 1, replicate 256 None) \<and>
   dbg_add_hdr \<lparr>env_pid = 100, env_tid = 101, env_clock = None, env_has_gettid = False\<rparr>
     ''%Q%t'' 2 (replicate 256 None) 0 256 ''dbg.c'' ''main'' 7 = Inr (0, 3, replicate 256 None)"
proof -
  have "tpl_at ''%Q%t'' (Suc 0) = Inr (CHR ''Q'')" "tpl_at ''%Q%t'' (Suc 2) = Inr (CHR ''t'')"
    by (simp_all add: tpl_at_def)
  from dbg_add_hdr_unknown [OF this(1)] dbg_add_hdr_unknown [OF this(2)]
  show ?thesis by simp
qed

text \<open>
  C8: \<open>dbg_add_hdr\<close> never returns a negative value and always advances the template
  index by one: no conversion error of a directive reaches the caller.  A failing
  \<open>clock_gettime\<close> is not reported either; the model shows it as a read of the
  uninitialised \<open>now\<close> instead.
\<close>

theorem dbg_add_hdr_nonneg:
  assumes "dbg_add_hdr env hdr h b p r file func lineno = Inr (rc, h', b')"
  shows "0 \<le> rc \<and> h' = Suc h"
proof (cases "tpl_at hdr (Suc h)")
  case (Inl e)
  with assms show ?thesis by (simp add: dbg_add_hdr_tpl_err)
next
  case (Inr c)
  show ?thesis
  proof (cases "directive_text env file func lineno c")
    case (Inl e)
    with Inr assms show ?thesis by (simp add: dbg_add_hdr_text_err)
  next
    case (Inr x)
    with \<open>tpl_at hdr (Suc h) = Inr c\<close> assms show ?thesis
      by (auto simp: dbg_add_hdr_eq snprintf_def ub_bind_eq_Inr cbuf_store_def split: if_splits)
  qed
qed

theorem dbg_add_hdr_nonneg_witness:
  "\<exists>rc h' b'. dbg_add_hdr \<lparr>env_pid = 100, env_tid = 101, env_clock = Some (7, 250000000), env_has_gettid = True\<rparr>
     ''%l'' 0 (replicate 256 None) 0 256 ''dbg.c'' ''main'' 42 = Inr (rc, h', b') \<and> 0 \<le> rc \<and> h' = Suc 0"
proof -
  obtain rc h' b' where run: "dbg_add_hdr \<lparr>env_pid = 100, env_tid = 101, env_clock = Some (7, 250000000), env_has_gettid = True\<rparr>
     ''%l'' 0 (replicate 256 None) 0 256 ''dbg.c'' ''main'' 42 = Inr (rc, h', b')"
    by (simp add: dbg_eval)
  from dbg_add_hdr_nonneg [OF run] run show ?thesis by blast
qed

text \<open>
  C9: \<open>%B\<close> prints the last component of the file path: the characters after the last
  \<open>/\<close>, or the whole path when it has none.
\<close>

theorem basename_last_component:
  assumes "NUL \<notin> set f"
  shows "basename f = rev (takeWhile (\<lambda>c. c \<noteq> CHR ''/'') (rev f))"
proof (cases "CHR ''/'' \<in> set f")
  case True
  let ?n = "length (takeWhile (\<lambda>c. c \<noteq> CHR ''/'') (rev f))"
  have lt: "?n < length f" using True length_takeWhile_less [of "CHR ''/''" "rev f"] by simp
  have "basename f = drop (length f - ?n) f"
    using True lt assms by (simp add: basename_def strrchr_def strrchr_from_last Suc_diff_Suc)
  also have "\<dots> = rev (take ?n (rev f))" by (simp add: rev_take)
  also have "take ?n (rev f) = takeWhile (\<lambda>c. c \<noteq> CHR ''/'') (rev f)"
    by (metis takeWhile_eq_take)
  finally show ?thesis .
next
  case False
  then have tw: "takeWhile (\<lambda>c. c \<noteq> CHR ''/'') (rev f) = rev f" by (auto simp: takeWhile_eq_all_conv)
  have "basename f = f" using False assms by (simp add: basename_def strrchr_def strrchr_from_last)
  then show ?thesis by (simp only: tw rev_rev_ident)
qed

theorem basename_last_component_witness:
  "basename ''/a/b/c.ext'' = ''c.ext'' \<and> basename ''c.ext'' = ''c.ext''"
proof -
  have "NUL \<notin> set ''/a/b/c.ext''" "NUL \<notin> set ''c.ext''" by (simp_all add: NUL_def)
  from basename_last_component [OF this(1)] basename_last_component [OF this(2)]
  show ?thesis by simp
qed

theorem dbg_add_hdr_bounded_witness:
  "\<exists>rc h' b'. dbg_add_hdr \<lparr>env_pid = 100, env_tid = 101, env_clock = None, env_has_gettid = True\<rparr>
       ''%F'' 0 (replicate 8 None) 2 4 ''dbg.c'' ''main'' 7 = Inr (rc, h', b') \<and>
     rc = 5 \<and> length b' = 8 \<and> (\<forall>i. i < 2 \<or> 6 \<le> i \<longrightarrow> b' ! i = replicate 8 None ! i) \<and>
     (\<forall>i < 3. b' ! (2 + i) = Some (''dbg.c'' ! i))"
proof -
  obtain rc h' b' where run: "dbg_add_hdr \<lparr>env_pid = 100, env_tid = 101, env_clock = None, env_has_gettid = True\<rparr>
       ''%F'' 0 (replicate 8 None) 2 4 ''dbg.c'' ''main'' 7 = Inr (rc, h', b')"
    by (simp add: dbg_eval)
  have c: "tpl_at ''%F'' (Suc 0) = Inr (CHR ''F'')" by (simp add: tpl_at_def)
  have x: "directive_text \<lparr>env_pid = 100, env_tid = 101, env_clock = None, env_has_gettid = True\<rparr>
       ''dbg.c'' ''main'' 7 (CHR ''F'') = Inr ''dbg.c''" by (simp add: dbg_eval NUL_def)
  from dbg_add_hdr_bounded [OF c _ x _ _ _ run] run show ?thesis
    by (simp add: INT_MAX_def)
qed

theorem dbg_add_hdr_numbers_roundtrip_witness:
  "\<exists>rc h' b' s. dbg_add_hdr \<lparr>env_pid = 100, env_tid = 101, env_clock = Some (7, 250000000), env_has_gettid = True\<rparr>
       ''%T'' 0 (replicate 12 None) 0 12 ''dbg.c'' ''main'' 42 = Inr (rc, h', b') \<and>
     c_str b' = Inr s \<and> read_time s = Some (7, 250000)"
proof -
  have c: "tpl_at ''%T'' (Suc 0) = Inr (CHR ''T'')" by (simp add: tpl_at_def)
  have x: "directive_text \<lparr>env_pid = 100, env_tid = 101, env_clock = Some (7, 250000000), env_has_gettid = True\<rparr>
        ''dbg.c'' ''main'' 42 (CHR ''T'') = Inr ''7.250000''"
    by (simp add: dbg_eval)
  have "snprintf (replicate 12 None) 0 (size_of_int 12) ''7.250000'' =
      Inr (8, map Some ''7.250000'' @ [Some NUL, None, None, None])"
    by (simp add: dbg_eval)
  with dbg_add_hdr_eq [OF c x] have run: "dbg_add_hdr \<lparr>env_pid = 100, env_tid = 101, env_clock = Some (7, 250000000), env_has_gettid = True\<rparr>
       ''%T'' 0 (replicate 12 None) 0 12 ''dbg.c'' ''main'' 42 = Inr (8, 1, map Some ''7.250000'' @ [Some NUL, None, None, None])"
    by simp
  from dbg_add_hdr_numbers_roundtrip [OF c _ _ _ _ _ _ _ _ run] run show ?thesis
    by (simp add: INT_MAX_def NUL_def)
qed
end
