(* ===== verification/Dbg_Format.thy ===== *)
theory Dbg_Format
  imports Dbg_Expander
begin

text \<open>
  The bounded message formatter, \<open>__vdbg\<close> of \<^verbatim>\<open>src/dbg.c\<close>: a do-while loop over the
  header template that copies literal characters, hands each \<open>%\<close> to \<open>dbg_add_hdr\<close>,
  and at the terminator appends the caller's message with \<open>vsnprintf\<close>, all into the
  256-byte stack array \<open>buf\<close>; then one \<open>printf("%s", buf)\<close>.  The loop's local
  variables are the record \<open>fmt_state\<close>; one iteration is \<open>vdbg_step\<close>, the bookkeeping
  after each piece (lines 149--158) is \<open>vdbg_account\<close>.  The invariant \<open>fmt_inv\<close>
  relates the state to the text produced so far; the lemmas show that every iteration
  keeps it, and from it what \<open>__vdbg\<close> prints and returns.
\<close>

section \<open>The code\<close>

record fmt_state =
  fs_hdr :: nat          \<comment> \<open>index of \<open>hdr\<close> in the template\<close>
  fs_p :: nat            \<comment> \<open>\<open>p - buf\<close>\<close>
  fs_remaining :: int
  fs_rc :: int
  fs_buf :: cbuf

definition vdbg_init :: fmt_state where
  "vdbg_init = \<lparr>fs_hdr = 0, fs_p = 0, fs_remaining = 256, fs_rc = 0, fs_buf = replicate 256 None\<rparr>"

text \<open>
  Lines 152--156 after a piece of \<open>rc2 \<ge> 0\<close> characters: \<open>rc += rc2\<close>, then
  \<open>added = MIN(rc2, remaining)\<close> (an \<open>unsigned\<close>), \<open>remaining -= added\<close>, \<open>p += added\<close>.
\<close>

definition vdbg_advance :: "fmt_state \<Rightarrow> int \<Rightarrow> cbuf \<Rightarrow> fmt_state" where
  "vdbg_advance s rc2 b =
     (let added = nat (MIN_macro rc2 (fs_remaining s)) in
        s\<lparr>fs_rc := fs_rc s + rc2, fs_remaining := fs_remaining s - int added,
          fs_p := fs_p s + added, fs_buf := b\<rparr>)"

text \<open>
  The bookkeeping of lines 149--158: a negative \<open>rc2\<close> becomes \<open>rc\<close>; otherwise \<open>rc += rc2\<close>
  is a signed \<open>int\<close> addition, undefined when the sum exceeds \<open>INT_MAX\<close>.
\<close>

definition vdbg_account :: "fmt_state \<Rightarrow> int \<Rightarrow> cbuf \<Rightarrow> ub + fmt_state" where
  "vdbg_account s rc2 b =
     (if rc2 < 0 then Inr (s\<lparr>fs_rc := rc2, fs_buf := b\<rparr>)
      else if INT_MAX < fs_rc s + rc2 then Inl Int_overflow
      else Inr (vdbg_advance s rc2 b))"

text \<open>One iteration of the do-while loop: the character read, and the state after \<open>hdr++\<close>.\<close>

definition vdbg_step ::
  "dbg_env \<Rightarrow> string \<Rightarrow> string \<Rightarrow> string \<Rightarrow> u32 \<Rightarrow> string option \<Rightarrow> fmt_state \<Rightarrow> ub + (char \<times> fmt_state)"
where
  "vdbg_step env hdr file func lineno msg s =
     ub_bind (tpl_at hdr (fs_hdr s)) (\<lambda>c.
       ub_bind
         (if c = CHR ''%'' then
            dbg_add_hdr env hdr (fs_hdr s) (fs_buf s) (fs_p s) (fs_remaining s) file func lineno
          else if c = NUL then
            ub_bind (vsnprintf (fs_buf s) (fs_p s) (size_of_int (fs_remaining s)) msg)
              (\<lambda>(rc2, b). Inr (rc2, fs_hdr s, b))
          else
            ub_bind (if 2 < fs_remaining s then cbuf_store (fs_buf s) (fs_p s) c else Inr (fs_buf s))
              (\<lambda>b. Inr (1, fs_hdr s, b)))
         (\<lambda>(rc2, h, b). ub_bind (vdbg_account s rc2 b) (\<lambda>s'. Inr (c, s'\<lparr>fs_hdr := Suc h\<rparr>))))"

function vdbg_loop ::
  "dbg_env \<Rightarrow> string \<Rightarrow> string \<Rightarrow> string \<Rightarrow> u32 \<Rightarrow> string option \<Rightarrow> fmt_state \<Rightarrow> ub + fmt_state"
where
  "vdbg_loop env hdr file func lineno msg s =
     ub_bind (vdbg_step env hdr file func lineno msg s) (\<lambda>(c, s').
       if 0 \<le> fs_rc s' \<and> c \<noteq> NUL then vdbg_loop env hdr file func lineno msg s' else Inr s')"
  by pat_completeness auto
termination
proof (relation "measure (\<lambda>(env, hdr, fl, fn, lineno, msg, s). Suc (Suc (length hdr)) - fs_hdr s)")
  show "wf (measure (\<lambda>(env, hdr, fl, fn, lineno, msg, s). Suc (Suc (length hdr)) - fs_hdr s))"
    by simp
next
  fix env hdr fl fn lineno msg s x c s'
  assume step: "vdbg_step env hdr fl fn lineno msg s = Inr x" and x: "(c, s') = x"
  obtain c0 where c0: "tpl_at hdr (fs_hdr s) = Inr c0"
    using step by (cases "tpl_at hdr (fs_hdr s)") (simp_all add: vdbg_step_def)
  then have le: "fs_hdr s \<le> length hdr" by (simp add: tpl_at_def split: if_splits)
  have "fs_hdr s < fs_hdr s'"
  proof (cases "c0 = CHR ''%''")
    case True
    with step c0 x show ?thesis
      by (auto simp: vdbg_step_def ub_bind_eq_Inr split: prod.splits dest!: dbg_add_hdr_next)
  next
    case False
    with step c0 x show ?thesis
      by (auto simp: vdbg_step_def ub_bind_eq_Inr split: if_splits prod.splits)
  qed
  with le have "fs_hdr s \<le> length hdr \<and> fs_hdr s < fs_hdr s'" by simp
  then show "((env, hdr, fl, fn, lineno, msg, s'), env, hdr, fl, fn, lineno, msg, s)
             \<in> measure (\<lambda>(env, hdr, fl, fn, lineno, msg, s). Suc (Suc (length hdr)) - fs_hdr s)"
    by (simp, arith)
qed

declare vdbg_loop.simps [simp del]

text \<open>\<open>__vdbg(hdr, file, func, lineno, fmt, ap)\<close> on the output stream \<open>sk\<close>.\<close>

definition vdbg ::
  "dbg_env \<Rightarrow> string \<Rightarrow> string \<Rightarrow> string \<Rightarrow> u32 \<Rightarrow> string option \<Rightarrow> sink \<Rightarrow> ub + (int \<times> sink)"
where
  "vdbg env hdr file func lineno msg sk =
     ub_bind (vdbg_loop env hdr file func lineno msg vdbg_init) (\<lambda>s.
       if 0 \<le> fs_rc s then
         ub_bind (c_str (fs_buf s)) (\<lambda>out.
           let (rc2, sk') = printf_s sk out in Inr (if rc2 < 0 then rc2 else fs_rc s, sk'))
       else Inr (fs_rc s, sk))"

declare vdbg_init_def [dbg_eval] vdbg_advance_def [dbg_eval] vdbg_account_def [dbg_eval] vdbg_step_def [dbg_eval] vdbg_def [dbg_eval]

section \<open>The invariant\<close>

text \<open>
  \<open>fmt_inv T s\<close>: \<open>T\<close> is the text the loop has produced so far (its length is
  \<open>rc\<close>); \<open>p + remaining = 256\<close>; while room remains \<open>p\<close> is at the end of \<open>T\<close>; every
  cell of \<open>buf\<close> is indeterminate, a terminator, or below \<open>p\<close> the character of \<open>T\<close>
  at that index.
\<close>

definition fmt_inv :: "string \<Rightarrow> fmt_state \<Rightarrow> bool" where
  "fmt_inv T s \<longleftrightarrow>
     length (fs_buf s) = 256 \<and> 0 \<le> fs_remaining s \<and> fs_p s + nat (fs_remaining s) = 256 \<and>
     fs_rc s = int (length T) \<and> fs_p s \<le> length T \<and> (0 < fs_remaining s \<longrightarrow> fs_p s = length T) \<and>
     buf_holds T (fs_p s) (fs_buf s)"

text \<open>
  For templates without directives, the stronger \<open>lit_inv\<close>: the cells below
  \<open>min p 254\<close> hold \<open>T\<close>, the cells from there on were never written.
\<close>

definition lit_inv :: "string \<Rightarrow> fmt_state \<Rightarrow> bool" where
  "lit_inv T s \<longleftrightarrow> fmt_inv T s \<and> NUL \<notin> set T \<and> buf_exact T (min (fs_p s) 254) (fs_buf s) \<and>
     (\<forall>i. min (fs_p s) 254 \<le> i \<longrightarrow> i < 256 \<longrightarrow> fs_buf s ! i = None)"

section \<open>One iteration\<close>

lemma vdbg_advance_nat:
  "0 \<le> fs_remaining s \<Longrightarrow> vdbg_advance s (int k) b =
     s\<lparr>fs_rc := fs_rc s + int k, fs_remaining := fs_remaining s - int (min k (nat (fs_remaining s))),
       fs_p := fs_p s + min k (nat (fs_remaining s)), fs_buf := b\<rparr>"
  by (auto simp: vdbg_advance_def Let_def min_def)

lemma vdbg_advance_buf [simp]: "fs_buf (vdbg_advance s k b) = b"
  by (simp add: vdbg_advance_def Let_def)

lemma vdbg_account_adv:
  "0 \<le> rc2 \<Longrightarrow> fs_rc s + rc2 \<le> INT_MAX \<Longrightarrow> vdbg_account s rc2 b = Inr (vdbg_advance s rc2 b)"
  by (simp add: vdbg_account_def)

lemma vdbg_account_ovf:
  "0 \<le> rc2 \<Longrightarrow> INT_MAX < fs_rc s + rc2 \<Longrightarrow> vdbg_account s rc2 b = Inl Int_overflow"
  by (simp add: vdbg_account_def)

text \<open>A piece accounted without overflow: the state after the step and the bound it needed.\<close>

lemma vdbg_account_bind_Inr:
  assumes "ub_bind (vdbg_account s rc2 b) (\<lambda>s1. Inr (c, s1\<lparr>fs_hdr := h\<rparr>)) = Inr (c', s')" and "0 \<le> rc2"
  shows "fs_rc s + rc2 \<le> INT_MAX \<and> c' = c \<and> s' = (vdbg_advance s rc2 b)\<lparr>fs_hdr := h\<rparr>"
  using assms by (auto simp: vdbg_account_def split: if_splits)

lemma fmt_inv_remaining: "fmt_inv T s \<Longrightarrow> 0 \<le> fs_remaining s \<and> fs_remaining s \<le> 256"
proof -
  assume "fmt_inv T s"
  then have "0 \<le> fs_remaining s" and "nat (fs_remaining s) \<le> 256" by (auto simp: fmt_inv_def)
  then show ?thesis by (simp add: nat_le_iff)
qed

lemma fmt_inv_size [simp]: "fmt_inv T s \<Longrightarrow> size_of_int (fs_remaining s) = nat (fs_remaining s)"
  by (drule fmt_inv_remaining) simp

lemma fmt_put:
  assumes inv: "fmt_inv T s"
  obtains b where "snprintf (fs_buf s) (fs_p s) (size_of_int (fs_remaining s)) x = Inr (int (length x), b)"
    and "fmt_inv (T @ x) (vdbg_advance s (int (length x)) b)"
    and "buf_exact T (fs_p s) (fs_buf s) \<Longrightarrow> int (length x) < fs_remaining s \<Longrightarrow>
         buf_exact (T @ x) (fs_p s + length x) b \<and> b ! (fs_p s + length x) = Some NUL"
proof -
  let ?p = "fs_p s" and ?r = "fs_remaining s" and ?b = "fs_buf s"
  from inv have len: "length ?b = 256" and r0: "0 \<le> ?r" and pr: "?p + nat ?r = 256"
    and pT: "?p \<le> length T" and pos: "0 < ?r \<longrightarrow> ?p = length T" and h: "buf_holds T ?p ?b"
    by (auto simp: fmt_inv_def)
  obtain b where snp: "snprintf ?b ?p (nat ?r) x = Inr (int (length x), b)"
    using pr len by (simp add: snprintf_Inr)
  show ?thesis
  proof
    show "snprintf ?b ?p (size_of_int ?r) x = Inr (int (length x), b)" using snp inv by simp
  next
    show "fmt_inv (T @ x) (vdbg_advance s (int (length x)) b)"
    proof (cases "?r = 0")
      case True
      with snp have "b = ?b" by (simp add: snprintf_def)
      with True inv h pT show ?thesis
        by (simp add: fmt_inv_def vdbg_advance_nat buf_holds_mono)
    next
      case False
      with r0 pos have p: "?p = length T" by simp
      have "?p + nat ?r = length ?b" and "0 < nat ?r" using pr len False r0 by simp_all
      from snprintf_holds [OF h p this snp] len
      have "length b = 256 \<and> buf_holds (T @ x) (?p + min (length x) (nat ?r)) b"
        by simp
      with inv p False r0 show ?thesis
        by (auto simp: fmt_inv_def vdbg_advance_nat min_def)
    qed
  next
    assume e: "buf_exact T ?p ?b" and x: "int (length x) < ?r"
    with r0 pos have p: "?p = length T" by simp
    from snprintf_exact [OF e p _ _ snp] pr len x
    show "buf_exact (T @ x) (?p + length x) b \<and> b ! (?p + length x) = Some NUL" by simp
  qed
qed

lemma vdbg_advance_one:
  "0 \<le> fs_remaining s \<Longrightarrow> vdbg_advance s 1 b =
     s\<lparr>fs_rc := fs_rc s + 1, fs_remaining := fs_remaining s - int (min 1 (nat (fs_remaining s))),
       fs_p := fs_p s + min 1 (nat (fs_remaining s)), fs_buf := b\<rparr>"
  using vdbg_advance_nat [of s 1 b] by simp

lemma vdbg_advance_zero [simp]: "vdbg_advance s 0 (fs_buf s) = s"
  by (simp add: vdbg_advance_def)

lemma fmt_inv_hdr [simp]: "fmt_inv T (s\<lparr>fs_hdr := h\<rparr>) = fmt_inv T s"
  by (simp add: fmt_inv_def)

lemma fmt_store:
  assumes inv: "fmt_inv T s" and r: "0 < fs_remaining s"
  obtains b where "cbuf_store (fs_buf s) (fs_p s) c = Inr b"
    and "fmt_inv (T @ [c]) (vdbg_advance s 1 b)"
    and "buf_exact T (fs_p s) (fs_buf s) \<Longrightarrow> buf_exact (T @ [c]) (Suc (fs_p s)) b"
proof -
  from inv r have p: "fs_p s = length T" and lt: "fs_p s < length (fs_buf s)"
    and h: "buf_holds T (fs_p s) (fs_buf s)"
    by (auto simp: fmt_inv_def)
  obtain b where st: "cbuf_store (fs_buf s) (fs_p s) c = Inr b"
    using lt by (simp add: cbuf_store_def)
  from cbuf_store_holds [OF h p st] have
    "length b = length (fs_buf s)" "buf_holds (T @ [c]) (Suc (fs_p s)) b"
    "buf_exact T (fs_p s) (fs_buf s) \<longrightarrow> buf_exact (T @ [c]) (Suc (fs_p s)) b"
    by simp_all
  moreover from inv r p have "fmt_inv (T @ [c]) (vdbg_advance s 1 b) \<longleftrightarrow>
      length b = 256 \<and> buf_holds (T @ [c]) (Suc (fs_p s)) b"
    by (auto simp: fmt_inv_def vdbg_advance_one)
  ultimately show ?thesis using that st inv by (simp add: fmt_inv_def)
qed

lemma fmt_skip:
  assumes inv: "fmt_inv T s"
  shows "fmt_inv (T @ [c]) (vdbg_advance s 1 (fs_buf s))"
proof -
  from inv have h: "buf_holds T (fs_p s) (fs_buf s)" and pT: "fs_p s \<le> length T"
    by (auto simp: fmt_inv_def)
  have "buf_holds (T @ [c]) (fs_p s + min 1 (nat (fs_remaining s))) (fs_buf s)"
    using buf_holds_mono [OF h pT] by simp
  with inv show ?thesis
    by (auto simp: fmt_inv_def vdbg_advance_one min_def)
qed

lemma fmt_store_oob:
  "fmt_inv T s \<Longrightarrow> fs_remaining s = 0 \<Longrightarrow> cbuf_store (fs_buf s) (fs_p s) c = Inl (Write_oob 256)"
  by (simp add: fmt_inv_def cbuf_store_def)

lemma vdbg_step_tpl_err:
  "tpl_at hdr (fs_hdr s) = Inl e \<Longrightarrow> vdbg_step env hdr fname func lineno msg s = Inl e"
  by (simp add: vdbg_step_def)

text \<open>
  Each kind of iteration in two forms: the \<open>_acc\<close> form exposes the piece handed to
  \<open>vdbg_account\<close> (so a result \<open>Inr\<close> shows that the sum stayed within \<open>INT_MAX\<close>); the
  plain form assumes that bound and gives the state after the iteration.
\<close>

lemma vdbg_step_lit_acc:
  assumes "fmt_inv T s" and "tpl_at hdr (fs_hdr s) = Inr c" and "c \<noteq> NUL" and "c \<noteq> CHR ''%''"
  shows "vdbg_step env hdr fname func lineno msg s =
    ub_bind (vdbg_account s 1 (if 2 < fs_remaining s then (fs_buf s)[fs_p s := Some c] else fs_buf s))
      (\<lambda>s1. Inr (c, s1\<lparr>fs_hdr := Suc (fs_hdr s)\<rparr>))"
  using assms by (auto simp: vdbg_step_def cbuf_store_def fmt_inv_def)

lemma vdbg_step_lit:
  assumes inv: "fmt_inv T s" and c: "tpl_at hdr (fs_hdr s) = Inr c" "c \<noteq> NUL" "c \<noteq> CHR ''%''"
    and lim: "int (length T) < INT_MAX"
  shows "\<exists>s1. vdbg_step env hdr fname func lineno msg s = Inr (c, s1) \<and> fs_hdr s1 = Suc (fs_hdr s) \<and>
     fmt_inv (T @ [c]) s1 \<and>
     (buf_exact T (fs_p s) (fs_buf s) \<longrightarrow> length T < 254 \<longrightarrow> buf_exact (T @ [c]) (fs_p s1) (fs_buf s1))"
proof -
  let ?b = "if 2 < fs_remaining s then (fs_buf s)[fs_p s := Some c] else fs_buf s"
  have acc: "vdbg_account s 1 ?b = Inr (vdbg_advance s 1 ?b)"
    using inv lim by (intro vdbg_account_adv) (simp_all add: fmt_inv_def)
  have step: "vdbg_step env hdr fname func lineno msg s = Inr (c, (vdbg_advance s 1 ?b)\<lparr>fs_hdr := Suc (fs_hdr s)\<rparr>)"
    using vdbg_step_lit_acc [OF inv c] acc by simp
  show ?thesis
  proof (cases "2 < fs_remaining s")
    case True
    then obtain b where st: "cbuf_store (fs_buf s) (fs_p s) c = Inr b"
      and i: "fmt_inv (T @ [c]) (vdbg_advance s 1 b)"
      and e: "buf_exact T (fs_p s) (fs_buf s) \<Longrightarrow> buf_exact (T @ [c]) (Suc (fs_p s)) b"
      using fmt_store [OF inv] by (metis less_trans zero_less_numeral)
    have "b = ?b" using st True by (simp add: cbuf_store_def split: if_splits)
    moreover have "fs_p (vdbg_advance s 1 b) = Suc (fs_p s)"
      using True by (simp add: vdbg_advance_def)
    ultimately show ?thesis using step i e True by simp
  next
    case False
    have "buf_exact T (fs_p s) (fs_buf s) \<longrightarrow> length T < 254 \<longrightarrow> False"
      using False inv by (auto simp: fmt_inv_def)
    with False step fmt_skip [OF inv, of c] show ?thesis by simp
  qed
qed

lemma vdbg_step_dir_err:
  assumes "tpl_at hdr (fs_hdr s) = Inr (CHR ''%'')"
    and "tpl_at hdr (Suc (fs_hdr s)) = Inl e \<or>
         (\<exists>d. tpl_at hdr (Suc (fs_hdr s)) = Inr d \<and> directive_text env fname func lineno d = Inl e)"
  shows "vdbg_step env hdr fname func lineno msg s = Inl e"
  using assms by (auto simp: vdbg_step_def dbg_add_hdr_tpl_err dbg_add_hdr_text_err)

lemma vdbg_step_pct_oob:
  "fmt_inv T s \<Longrightarrow> tpl_at hdr (fs_hdr s) = Inr (CHR ''%'') \<Longrightarrow>
   tpl_at hdr (Suc (fs_hdr s)) = Inr (CHR ''%'') \<Longrightarrow> fs_remaining s = 0 \<Longrightarrow>
   vdbg_step env hdr fname func lineno msg s = Inl (Write_oob 256)"
  by (simp add: vdbg_step_def dbg_add_hdr_eq directive_text_def fmt_store_oob)

lemma vdbg_step_dir_acc:
  assumes inv: "fmt_inv T s" and c: "tpl_at hdr (fs_hdr s) = Inr (CHR ''%'')"
    and d: "tpl_at hdr (Suc (fs_hdr s)) = Inr d"
    and x: "directive_text env fname func lineno d = Inr x"
    and pct: "d = CHR ''%'' \<longrightarrow> 0 < fs_remaining s"
  shows "\<exists>b. vdbg_step env hdr fname func lineno msg s =
       ub_bind (vdbg_account s (int (length x)) b) (\<lambda>s1. Inr (CHR ''%'', s1\<lparr>fs_hdr := Suc (Suc (fs_hdr s))\<rparr>)) \<and>
     fmt_inv (T @ x) (vdbg_advance s (int (length x)) b) \<and>
     (buf_exact T (fs_p s) (fs_buf s) \<longrightarrow> length (T @ x) \<le> 254 \<longrightarrow>
        buf_exact (T @ x) (fs_p (vdbg_advance s (int (length x)) b)) b)"
proof -
  let ?h = "fs_hdr s"
  have step: "vdbg_step env hdr fname func lineno msg s =
      ub_bind (dbg_add_hdr env hdr ?h (fs_buf s) (fs_p s) (fs_remaining s) fname func lineno)
        (\<lambda>(rc2, h, b). ub_bind (vdbg_account s rc2 b) (\<lambda>s'. Inr (CHR ''%'', s'\<lparr>fs_hdr := Suc h\<rparr>)))"
    using c by (simp add: vdbg_step_def)
  have ex: "buf_exact T (fs_p s) (fs_buf s) \<Longrightarrow> length (T @ y) \<le> 254 \<Longrightarrow>
      fs_p s = length T \<and> int (length y) < fs_remaining s" for y
    using inv by (auto simp: fmt_inv_def)
  show ?thesis
  proof (cases "d = CHR ''%''")
    case True
    with x have x': "x = [CHR ''%'']" by (simp add: directive_text_def)
    obtain b where st: "cbuf_store (fs_buf s) (fs_p s) (CHR ''%'') = Inr b"
      and i: "fmt_inv (T @ [CHR ''%'']) (vdbg_advance s 1 b)"
      and e: "buf_exact T (fs_p s) (fs_buf s) \<Longrightarrow> buf_exact (T @ [CHR ''%'']) (Suc (fs_p s)) b"
      using fmt_store [OF inv] True pct by blast
    have "fs_p (vdbg_advance s 1 b) = Suc (fs_p s)"
      using True pct by (simp add: vdbg_advance_def)
    with step st i e x' True d x show ?thesis
      by (intro exI [of _ b]) (simp add: dbg_add_hdr_eq)
  next
    case nopct: False
    show ?thesis
    proof (cases "d \<in> {CHR ''B'', CHR ''f'', CHR ''F'', CHR ''l'', CHR ''p'', CHR ''T''}
                   \<or> (d = CHR ''t'' \<and> env_has_gettid env)")
      case True
      obtain b where snp: "snprintf (fs_buf s) (fs_p s) (size_of_int (fs_remaining s)) x = Inr (int (length x), b)"
        and i: "fmt_inv (T @ x) (vdbg_advance s (int (length x)) b)"
        and e: "buf_exact T (fs_p s) (fs_buf s) \<Longrightarrow> int (length x) < fs_remaining s \<Longrightarrow>
                buf_exact (T @ x) (fs_p s + length x) b \<and> b ! (fs_p s + length x) = Some NUL"
        using fmt_put [OF inv] by blast
      have "int (length x) < fs_remaining s \<Longrightarrow> fs_p (vdbg_advance s (int (length x)) b) = fs_p s + length x"
        by (simp add: vdbg_advance_def Let_def)
      with step snp i e ex [of x] True nopct d x show ?thesis
        by (intro exI [of _ b]) (auto simp: dbg_add_hdr_eq)
    next
      case False
      with nopct have "x = []" using x by (auto simp: directive_text_def)
      with step False nopct d x inv show ?thesis
        by (intro exI [of _ "fs_buf s"]) (auto simp: dbg_add_hdr_eq)
    qed
  qed
qed

lemma vdbg_step_dir:
  assumes inv: "fmt_inv T s" and c: "tpl_at hdr (fs_hdr s) = Inr (CHR ''%'')"
    and d: "tpl_at hdr (Suc (fs_hdr s)) = Inr d"
    and x: "directive_text env fname func lineno d = Inr x"
    and pct: "d = CHR ''%'' \<longrightarrow> 0 < fs_remaining s" and lim: "int (length (T @ x)) \<le> INT_MAX"
  shows "\<exists>s1. vdbg_step env hdr fname func lineno msg s = Inr (CHR ''%'', s1) \<and>
     fs_hdr s1 = Suc (Suc (fs_hdr s)) \<and> fmt_inv (T @ x) s1 \<and>
     (buf_exact T (fs_p s) (fs_buf s) \<longrightarrow> length (T @ x) \<le> 254 \<longrightarrow>
        buf_exact (T @ x) (fs_p s1) (fs_buf s1))"
proof -
  obtain b where step: "vdbg_step env hdr fname func lineno msg s =
       ub_bind (vdbg_account s (int (length x)) b) (\<lambda>s1. Inr (CHR ''%'', s1\<lparr>fs_hdr := Suc (Suc (fs_hdr s))\<rparr>))"
    and i: "fmt_inv (T @ x) (vdbg_advance s (int (length x)) b)"
    and e: "buf_exact T (fs_p s) (fs_buf s) \<longrightarrow> length (T @ x) \<le> 254 \<longrightarrow>
        buf_exact (T @ x) (fs_p (vdbg_advance s (int (length x)) b)) b"
    using vdbg_step_dir_acc [OF inv c d x pct] by blast
  have "vdbg_account s (int (length x)) b = Inr (vdbg_advance s (int (length x)) b)"
    using inv lim by (intro vdbg_account_adv) (simp_all add: fmt_inv_def)
  with step i e show ?thesis by simp
qed

lemma vdbg_step_end_none:
  assumes "tpl_at hdr (fs_hdr s) = Inr NUL"
  shows "vdbg_step env hdr fname func lineno None s = Inr (NUL, s\<lparr>fs_rc := -1, fs_hdr := Suc (fs_hdr s)\<rparr>)"
  using assms by (simp add: vdbg_step_def vsnprintf_def vdbg_account_def)

lemma vdbg_step_end_acc:
  assumes inv: "fmt_inv T s" and c: "tpl_at hdr (fs_hdr s) = Inr NUL"
  shows "\<exists>b. vdbg_step env hdr fname func lineno (Some m) s =
       ub_bind (vdbg_account s (int (length m)) b) (\<lambda>s1. Inr (NUL, s1\<lparr>fs_hdr := Suc (fs_hdr s)\<rparr>)) \<and>
     fmt_inv (T @ m) (vdbg_advance s (int (length m)) b) \<and>
     (buf_exact T (fs_p s) (fs_buf s) \<longrightarrow> length T \<le> 254 \<longrightarrow>
        buf_exact (take 255 (T @ m)) (min (length (T @ m)) 255) b \<and> b ! min (length (T @ m)) 255 = Some NUL)"
proof -
  obtain b where snp: "snprintf (fs_buf s) (fs_p s) (size_of_int (fs_remaining s)) m = Inr (int (length m), b)"
    and i: "fmt_inv (T @ m) (vdbg_advance s (int (length m)) b)"
    using fmt_put [OF inv] by blast
  have tr: "buf_exact (take 255 (T @ m)) (min (length (T @ m)) 255) b \<and> b ! min (length (T @ m)) 255 = Some NUL"
    if e: "buf_exact T (fs_p s) (fs_buf s)" and T: "length T \<le> 254"
  proof -
    have p: "fs_p s = length T" and r: "nat (fs_remaining s) = 256 - length T"
      and n: "fs_p s + nat (fs_remaining s) \<le> length (fs_buf s)"
      using inv T by (auto simp: fmt_inv_def)
    from snp inv have "snprintf (fs_buf s) (fs_p s) (nat (fs_remaining s)) m = Inr (int (length m), b)" by simp
    from snprintf_trunc [OF e p n _ this] r T
    have "buf_exact (T @ take (255 - length T) m) (length T + min (length m) (255 - length T)) b \<and>
          b ! (length T + min (length m) (255 - length T)) = Some NUL" by (simp add: p)
    moreover have "length T + min (length m) (255 - length T) = min (length (T @ m)) 255" using T by simp
    ultimately show ?thesis using T by simp
  qed
  with c snp i show ?thesis
    by (intro exI [of _ b]) (auto simp: vdbg_step_def vsnprintf_def)
qed

lemma vdbg_step_end:
  assumes inv: "fmt_inv T s" and c: "tpl_at hdr (fs_hdr s) = Inr NUL"
    and lim: "int (length (T @ m)) \<le> INT_MAX"
  shows "\<exists>s1. vdbg_step env hdr fname func lineno (Some m) s = Inr (NUL, s1) \<and> fmt_inv (T @ m) s1 \<and>
     (buf_exact T (fs_p s) (fs_buf s) \<longrightarrow> length T \<le> 254 \<longrightarrow>
        buf_exact (take 255 (T @ m)) (min (length (T @ m)) 255) (fs_buf s1) \<and>
        fs_buf s1 ! min (length (T @ m)) 255 = Some NUL)"
proof -
  obtain b where step: "vdbg_step env hdr fname func lineno (Some m) s =
       ub_bind (vdbg_account s (int (length m)) b) (\<lambda>s1. Inr (NUL, s1\<lparr>fs_hdr := Suc (fs_hdr s)\<rparr>))"
    and i: "fmt_inv (T @ m) (vdbg_advance s (int (length m)) b)"
    and e: "buf_exact T (fs_p s) (fs_buf s) \<longrightarrow> length T \<le> 254 \<longrightarrow>
        buf_exact (take 255 (T @ m)) (min (length (T @ m)) 255) b \<and> b ! min (length (T @ m)) 255 = Some NUL"
    using vdbg_step_end_acc [OF inv c] by blast
  have "vdbg_account s (int (length m)) b = Inr (vdbg_advance s (int (length m)) b)"
    using inv lim by (intro vdbg_account_adv) (simp_all add: fmt_inv_def)
  with step i e show ?thesis by simp
qed

text \<open>Every iteration, in one statement: the terminator ends the header, any other character
  extends the text produced by a piece \<open>x\<close> that is also the next piece of \<open>hdr_text\<close>.\<close>

lemma vdbg_step_cases:
  assumes inv: "fmt_inv T s" and step: "vdbg_step env hdr fname func lineno msg s = Inr (c, s')"
  shows "(c = NUL \<and> hdr_text_from env fname func lineno hdr (fs_hdr s) = Inr [] \<and>
            (case msg of None \<Rightarrow> fs_rc s' = -1 | Some m \<Rightarrow> fmt_inv (T @ m) s'))
       \<or> (c \<noteq> NUL \<and> (\<exists>x. fmt_inv (T @ x) s' \<and>
            (length hdr < fs_hdr s' \<or>
             (\<forall>R. hdr_text_from env fname func lineno hdr (fs_hdr s) = Inr R \<longleftrightarrow>
                  (\<exists>R'. hdr_text_from env fname func lineno hdr (fs_hdr s') = Inr R' \<and> R = x @ R')))))"
proof -
  let ?h = "fs_hdr s"
  obtain c' where c: "tpl_at hdr ?h = Inr c'"
    using step by (cases "tpl_at hdr ?h") (auto simp: vdbg_step_tpl_err)
  have cc: "c' = c" using step c by (auto simp: vdbg_step_def ub_bind_eq_Inr)
  show ?thesis
  proof (cases "c = NUL")
    case True
    with c cc have R: "hdr_text_from env fname func lineno hdr ?h = Inr []"
      by (simp add: hdr_text_from_end)
    show ?thesis
    proof (cases msg)
      case None
      with True c cc step show ?thesis by (auto simp: R vdbg_step_end_none)
    next
      case (Some m)
      obtain b where "vdbg_step env hdr fname func lineno (Some m) s =
          ub_bind (vdbg_account s (int (length m)) b) (\<lambda>s1. Inr (NUL, s1\<lparr>fs_hdr := Suc ?h\<rparr>))"
        using vdbg_step_end_acc [OF inv] c cc True by blast
      with step Some have "ub_bind (vdbg_account s (int (length m)) b) (\<lambda>s1. Inr (NUL, s1\<lparr>fs_hdr := Suc ?h\<rparr>)) = Inr (c, s')"
        by simp
      from vdbg_account_bind_Inr [OF this] have "fs_rc s + int (length m) \<le> INT_MAX" by simp
      then have "int (length (T @ m)) \<le> INT_MAX" using inv by (simp add: fmt_inv_def)
      with True c cc inv Some obtain s1 where "vdbg_step env hdr fname func lineno msg s = Inr (NUL, s1)"
        and "fmt_inv (T @ m) s1"
        using vdbg_step_end by blast
      with step Some True show ?thesis by (simp add: R)
    qed
  next
    case notnul: False
    show ?thesis
    proof (cases "c = CHR ''%''")
      case True
      with c cc have c: "tpl_at hdr ?h = Inr (CHR ''%'')" by simp
      obtain d where d: "tpl_at hdr (Suc ?h) = Inr d"
        using step c by (cases "tpl_at hdr (Suc ?h)") (auto simp: vdbg_step_dir_err)
      obtain x where x: "directive_text env fname func lineno d = Inr x"
        using step c d by (cases "directive_text env fname func lineno d") (auto simp: vdbg_step_dir_err)
      have pct: "d = CHR ''%'' \<longrightarrow> 0 < fs_remaining s"
        using step c d inv fmt_inv_remaining [OF inv] vdbg_step_pct_oob [OF inv c]
        by (metis Inr_Inl_False order_le_less)
      obtain b where "vdbg_step env hdr fname func lineno msg s =
          ub_bind (vdbg_account s (int (length x)) b) (\<lambda>s1. Inr (CHR ''%'', s1\<lparr>fs_hdr := Suc (Suc ?h)\<rparr>))"
        using vdbg_step_dir_acc [OF inv c d x pct] by blast
      with step have "ub_bind (vdbg_account s (int (length x)) b) (\<lambda>s1. Inr (CHR ''%'', s1\<lparr>fs_hdr := Suc (Suc ?h)\<rparr>)) = Inr (c, s')"
        by simp
      from vdbg_account_bind_Inr [OF this] have "fs_rc s + int (length x) \<le> INT_MAX" by simp
      then have lim: "int (length (T @ x)) \<le> INT_MAX" using inv by (simp add: fmt_inv_def)
      obtain s1 where step1: "vdbg_step env hdr fname func lineno msg s = Inr (CHR ''%'', s1)"
        and h1: "fs_hdr s1 = Suc (Suc ?h)" and inv1: "fmt_inv (T @ x) s1"
        using vdbg_step_dir [OF inv c d x pct lim] by blast
      from step step1 have s': "s' = s1" by simp
      have "length hdr < fs_hdr s1 \<or>
            (\<forall>R. hdr_text_from env fname func lineno hdr ?h = Inr R \<longleftrightarrow>
               (\<exists>R'. hdr_text_from env fname func lineno hdr (fs_hdr s1) = Inr R' \<and> R = x @ R'))"
      proof (cases "Suc ?h < length hdr")
        case True
        then have "d = hdr ! Suc ?h" using d by (simp add: tpl_at_def)
        with c True x h1 show ?thesis by (simp add: hdr_text_from_dir)
      next
        case False
        with d h1 show ?thesis by (auto simp: tpl_at_def split: if_splits)
      qed
      with notnul inv1 s' show ?thesis by blast
    next
      case False
      have "ub_bind (vdbg_account s 1 (if 2 < fs_remaining s then (fs_buf s)[fs_p s := Some c] else fs_buf s))
              (\<lambda>s1. Inr (c, s1\<lparr>fs_hdr := Suc ?h\<rparr>)) = Inr (c, s')"
        using step vdbg_step_lit_acc [OF inv] c cc notnul False by simp
      from vdbg_account_bind_Inr [OF this] have "fs_rc s + 1 \<le> INT_MAX" by simp
      then have lim: "int (length T) < INT_MAX" using inv by (simp add: fmt_inv_def)
      with c cc notnul False obtain s1 where step1: "vdbg_step env hdr fname func lineno msg s = Inr (c, s1)"
        and h1: "fs_hdr s1 = Suc ?h" and inv1: "fmt_inv (T @ [c]) s1"
        using vdbg_step_lit [OF inv] by blast
      from step step1 have s': "s' = s1" by simp
      have "\<forall>R. hdr_text_from env fname func lineno hdr ?h = Inr R \<longleftrightarrow>
               (\<exists>R'. hdr_text_from env fname func lineno hdr (fs_hdr s1) = Inr R' \<and> R = [c] @ R')"
        using c cc notnul False h1 by (auto simp: hdr_text_from_lit ub_bind_eq_Inr)
      with notnul inv1 s' show ?thesis by blast
    qed
  qed
qed

section \<open>The loop\<close>

lemma vdbg_loop_step:
  "vdbg_step env hdr fname func lineno msg s = Inr (c, s1) \<Longrightarrow>
   vdbg_loop env hdr fname func lineno msg s =
     (if 0 \<le> fs_rc s1 \<and> c \<noteq> NUL then vdbg_loop env hdr fname func lineno msg s1 else Inr s1)"
  by (simp add: vdbg_loop.simps [of env hdr fname func lineno msg s])

lemma vdbg_loop_step_err:
  "vdbg_step env hdr fname func lineno msg s = Inl e \<Longrightarrow>
   vdbg_loop env hdr fname func lineno msg s = Inl e"
  by (simp add: vdbg_loop.simps [of env hdr fname func lineno msg s])

lemma vdbg_loop_beyond:
  "length hdr < fs_hdr s \<Longrightarrow> vdbg_loop env hdr fname func lineno msg s = Inl Read_oob"
  by (simp add: vdbg_loop_step_err vdbg_step_tpl_err tpl_at_beyond)

lemma vdbg_loop_sound:
  assumes "vdbg_loop env hdr fname func lineno msg s = Inr s'" and "fmt_inv T s"
  shows "\<exists>R. hdr_text_from env fname func lineno hdr (fs_hdr s) = Inr R \<and>
           (case msg of None \<Rightarrow> fs_rc s' = -1 | Some m \<Rightarrow> fmt_inv (T @ R @ m) s')"
  using assms
proof (induction env hdr fname func lineno msg s arbitrary: T rule: vdbg_loop.induct)
  case (1 env hdr fname func lineno msg s)
  note loop = "1.prems"(1) and inv = "1.prems"(2)
  obtain c s1 where step: "vdbg_step env hdr fname func lineno msg s = Inr (c, s1)"
    using loop by (cases "vdbg_step env hdr fname func lineno msg s") (auto simp: vdbg_loop_step_err)
  show ?case
  proof (cases "c = NUL")
    case True
    with vdbg_step_cases [OF inv step]
    have R: "hdr_text_from env fname func lineno hdr (fs_hdr s) = Inr []"
      and P: "case msg of None \<Rightarrow> fs_rc s1 = -1 | Some m \<Rightarrow> fmt_inv (T @ m) s1"
      by auto
    with True step loop show ?thesis by (auto simp: vdbg_loop_step split: option.splits)
  next
    case c: False
    with vdbg_step_cases [OF inv step] obtain x where inv1: "fmt_inv (T @ x) s1"
      and next1: "length hdr < fs_hdr s1 \<or>
        (\<forall>R. hdr_text_from env fname func lineno hdr (fs_hdr s) = Inr R \<longleftrightarrow>
           (\<exists>R'. hdr_text_from env fname func lineno hdr (fs_hdr s1) = Inr R' \<and> R = x @ R'))"
      by blast
    have rc1: "0 \<le> fs_rc s1" using inv1 by (simp add: fmt_inv_def)
    with step loop c have loop1: "vdbg_loop env hdr fname func lineno msg s1 = Inr s'"
      by (simp add: vdbg_loop_step)
    with next1 have eq: "\<forall>R. hdr_text_from env fname func lineno hdr (fs_hdr s) = Inr R \<longleftrightarrow>
           (\<exists>R'. hdr_text_from env fname func lineno hdr (fs_hdr s1) = Inr R' \<and> R = x @ R')"
      by (auto simp: vdbg_loop_beyond)
    from "1.IH" [OF step refl _ loop1 inv1] rc1 c obtain R' where
      R': "hdr_text_from env fname func lineno hdr (fs_hdr s1) = Inr R'"
      and P: "case msg of None \<Rightarrow> fs_rc s' = -1 | Some m \<Rightarrow> fmt_inv ((T @ x) @ R' @ m) s'"
      by auto
    from eq R' P show ?thesis
      by (intro exI [of _ "x @ R'"]) (auto split: option.splits)
  qed
qed
lemma fmt_inv_init: "fmt_inv [] vdbg_init"
  by (simp add: fmt_inv_def vdbg_init_def buf_holds_def)

lemma vdbg_loop_fits:
  assumes "fmt_inv T s" and "buf_exact T (fs_p s) (fs_buf s)" and "fs_hdr s \<le> length hdr"
    and "hdr_text_from env fname func lineno hdr (fs_hdr s) = Inr R"
    and "length (T @ R) \<le> 254" and "int (length (T @ R @ m)) \<le> INT_MAX" and "msg = Some m"
  shows "\<exists>s'. vdbg_loop env hdr fname func lineno msg s = Inr s' \<and> fmt_inv (T @ R @ m) s' \<and>
     buf_exact (take 255 (T @ R @ m)) (min (length (T @ R @ m)) 255) (fs_buf s') \<and>
     fs_buf s' ! min (length (T @ R @ m)) 255 = Some NUL"
  using assms
proof (induction env hdr fname func lineno msg s arbitrary: T R rule: vdbg_loop.induct)
  case (1 env hdr fname func lineno msg s)
  let ?h = "fs_hdr s"
  note inv = "1.prems"(1) and ex = "1.prems"(2) and hle = "1.prems"(3) and R = "1.prems"(4)
    and msg = "1.prems"(7)
  have "\<exists>c. tpl_at hdr ?h = Inr c" using hle by (auto simp: tpl_at_def)
  then obtain c where c: "tpl_at hdr ?h = Inr c" by blast
  have rpos: "0 < fs_remaining s" and p: "fs_p s = length T"
    using inv "1.prems"(5) by (auto simp: fmt_inv_def)
  show ?case
  proof (cases "c = NUL")
    case True
    with c R have "R = []" by (simp add: hdr_text_from_end)
    with True c inv ex "1.prems"(5,6) obtain s1 where
      "vdbg_step env hdr fname func lineno msg s = Inr (NUL, s1)" and "fmt_inv (T @ m) s1"
      and "buf_exact (take 255 (T @ m)) (min (length (T @ m)) 255) (fs_buf s1)"
      and "fs_buf s1 ! min (length (T @ m)) 255 = Some NUL"
      using vdbg_step_end [OF inv c [unfolded True], of m env fname func lineno] msg by auto
    with \<open>R = []\<close> show ?thesis by (simp add: vdbg_loop_step)
  next
    case notnul: False
    show ?thesis
    proof (cases "c = CHR ''%''")
      case True
      have lt: "Suc ?h < length hdr"
      proof (rule ccontr)
        assume "\<not> Suc ?h < length hdr"
        with c True hle have "Suc ?h = length hdr" by (auto simp: tpl_at_def split: if_splits)
        with c True R show False by (simp add: hdr_text_from_trailing)
      qed
      have d: "tpl_at hdr (Suc ?h) = Inr (hdr ! Suc ?h)" using lt by (simp add: tpl_at_def)
      from R c True lt obtain x R' where x: "directive_text env fname func lineno (hdr ! Suc ?h) = Inr x"
        and R': "hdr_text_from env fname func lineno hdr (Suc (Suc ?h)) = Inr R'" and RR: "R = x @ R'"
        by (auto simp: hdr_text_from_dir)
      have lim: "int (length (T @ x)) \<le> INT_MAX" using "1.prems"(5) RR by (simp add: INT_MAX_def)
      obtain s1 where step: "vdbg_step env hdr fname func lineno msg s = Inr (CHR ''%'', s1)"
        and h1: "fs_hdr s1 = Suc (Suc ?h)" and inv1: "fmt_inv (T @ x) s1"
        and ex1: "buf_exact T (fs_p s) (fs_buf s) \<longrightarrow> length (T @ x) \<le> 254 \<longrightarrow>
                  buf_exact (T @ x) (fs_p s1) (fs_buf s1)"
        using vdbg_step_dir [OF inv c [unfolded True] d x _ lim] rpos by blast
      have rc1: "0 \<le> fs_rc s1" using inv1 by (simp add: fmt_inv_def)
      have "length (T @ x) \<le> 254" using "1.prems"(5) RR by simp
      with ex ex1 have ex1': "buf_exact (T @ x) (fs_p s1) (fs_buf s1)" by simp
      have hle1: "fs_hdr s1 \<le> length hdr" using h1 lt by simp
      from "1.IH" [OF step refl _ inv1 ex1' hle1 R' [folded h1] _ _ msg] rc1 "1.prems"(5,6) RR
      obtain s' where "vdbg_loop env hdr fname func lineno msg s1 = Inr s'"
        and "fmt_inv ((T @ x) @ R' @ m) s'"
        and "buf_exact (take 255 ((T @ x) @ R' @ m)) (min (length ((T @ x) @ R' @ m)) 255) (fs_buf s')"
        and "fs_buf s' ! min (length ((T @ x) @ R' @ m)) 255 = Some NUL"
        by auto
      with step rc1 RR show ?thesis by (simp add: vdbg_loop_step)
    next
      case False
      from R c notnul False obtain R' where R': "hdr_text_from env fname func lineno hdr (Suc ?h) = Inr R'"
        and RR: "R = c # R'"
        by (auto simp: hdr_text_from_lit ub_bind_eq_Inr)
      have lim: "int (length T) < INT_MAX" using "1.prems"(5) RR by (simp add: INT_MAX_def)
      obtain s1 where step: "vdbg_step env hdr fname func lineno msg s = Inr (c, s1)"
        and h1: "fs_hdr s1 = Suc ?h" and inv1: "fmt_inv (T @ [c]) s1"
        and ex1: "buf_exact T (fs_p s) (fs_buf s) \<longrightarrow> length T < 254 \<longrightarrow>
                  buf_exact (T @ [c]) (fs_p s1) (fs_buf s1)"
        using vdbg_step_lit [OF inv c notnul False lim] by blast
      have rc1: "0 \<le> fs_rc s1" using inv1 by (simp add: fmt_inv_def)
      have "length T < 254" using "1.prems"(5) RR by simp
      with ex ex1 have ex1': "buf_exact (T @ [c]) (fs_p s1) (fs_buf s1)" by simp
      have hle1: "fs_hdr s1 \<le> length hdr" using c h1 notnul by (auto simp: tpl_at_def split: if_splits)
      from "1.IH" [OF step refl _ inv1 ex1' hle1 R' [folded h1] _ _ msg] rc1 notnul "1.prems"(5,6) RR
      obtain s' where "vdbg_loop env hdr fname func lineno msg s1 = Inr s'"
        and "fmt_inv ((T @ [c]) @ R' @ m) s'"
        and "buf_exact (take 255 ((T @ [c]) @ R' @ m)) (min (length ((T @ [c]) @ R' @ m)) 255) (fs_buf s')"
        and "fs_buf s' ! min (length ((T @ [c]) @ R' @ m)) 255 = Some NUL"
        by auto
      with step rc1 notnul RR show ?thesis by (simp add: vdbg_loop_step)
    qed
  qed
qed
text \<open>
  When the header fits, the loop ends with \<open>rc = |H| + |m|\<close> and \<open>buf\<close> holding the
  first 255 characters of the header followed by the message, terminated.
\<close>

lemma vdbg_loop_prints_trunc:
  assumes H: "hdr_text env fname func lineno hdr = Inr H" and "length H \<le> 254"
    and "int (length H + length m) \<le> INT_MAX"
  shows "\<exists>s. vdbg_loop env hdr fname func lineno (Some m) vdbg_init = Inr s \<and>
     fs_rc s = int (length H + length m) \<and>
     c_str (fs_buf s) = Inr (take 255 (H @ takeWhile (\<lambda>c. c \<noteq> NUL) m))"
proof -
  have "buf_exact [] (fs_p vdbg_init) (fs_buf vdbg_init)" "fs_hdr vdbg_init \<le> length hdr"
    by (simp_all add: buf_exact_def vdbg_init_def)
  from vdbg_loop_fits [OF fmt_inv_init this(1) this(2), of env fname func lineno H m] assms
  obtain s where loop: "vdbg_loop env hdr fname func lineno (Some m) vdbg_init = Inr s"
    and inv: "fmt_inv (H @ m) s"
    and ex: "buf_exact (take 255 (H @ m)) (min (length (H @ m)) 255) (fs_buf s)"
    and nul: "fs_buf s ! min (length (H @ m)) 255 = Some NUL"
    by (auto simp: vdbg_init_def)
  from inv have rc: "fs_rc s = int (length H + length m)" and len: "length (fs_buf s) = 256"
    by (auto simp: fmt_inv_def)
  have lt: "min (length (H @ m)) 255 = length (take 255 (H @ m))" by simp
  from ex nul have "buf_exact (take 255 (H @ m)) (length (take 255 (H @ m))) (fs_buf s)"
    and "fs_buf s ! length (take 255 (H @ m)) = Some NUL" by (simp_all only: lt)
  from c_str_exact [OF this(1) _ this(2)] len
  have "c_str (fs_buf s) = Inr (takeWhile (\<lambda>c. c \<noteq> NUL) (take 255 (H @ m)))" by simp
  moreover have "takeWhile (\<lambda>c. c \<noteq> NUL) (H @ m) = H @ takeWhile (\<lambda>c. c \<noteq> NUL) m"
    using hdr_text_from_NUL [OF H] by (auto intro: takeWhile_append2)
  ultimately have "c_str (fs_buf s) = Inr (take 255 (H @ takeWhile (\<lambda>c. c \<noteq> NUL) m))"
    by (simp only: takeWhile_take)
  with loop rc show ?thesis by blast
qed

text \<open>When header and message fit, nothing is cut.\<close>

lemma vdbg_loop_prints:
  assumes H: "hdr_text env fname func lineno hdr = Inr H" and "length H \<le> 254"
    and "length H + length m \<le> 255"
  shows "\<exists>s. vdbg_loop env hdr fname func lineno (Some m) vdbg_init = Inr s \<and>
     fs_rc s = int (length H + length m) \<and> c_str (fs_buf s) = Inr (H @ takeWhile (\<lambda>c. c \<noteq> NUL) m)"
proof -
  have "length (takeWhile (\<lambda>c. c \<noteq> NUL) m) \<le> length m" by (rule length_takeWhile_le)
  with assms(3) have lim: "int (length H + length m) \<le> INT_MAX"
    and tk: "take 255 (H @ takeWhile (\<lambda>c. c \<noteq> NUL) m) = H @ takeWhile (\<lambda>c. c \<noteq> NUL) m"
    by (simp_all add: INT_MAX_def)
  show ?thesis using vdbg_loop_prints_trunc [OF H assms(2) lim] unfolding tk .
qed

text \<open>What \<open>__vdbg\<close> returns when the header fits, on a good or a failed stream.\<close>

lemma vdbg_header_fits:
  assumes "hdr_text env fname func lineno hdr = Inr H" and "length H \<le> 254"
    and "int (length H + length m) \<le> INT_MAX"
  shows "vdbg env hdr fname func lineno (Some m) sk =
     (if sk_broken sk then Inr (-1, sk)
      else Inr (int (length H + length m),
                sk\<lparr>sk_out := sk_out sk @ [take 255 (H @ takeWhile (\<lambda>c. c \<noteq> NUL) m)]\<rparr>))"
  using vdbg_loop_prints_trunc [OF assms] by (auto simp: vdbg_def printf_s_def)

section \<open>What \<open>__vdbg\<close> prints and returns\<close>

text \<open>
  C1: whatever \<open>__vdbg\<close> returns without undefined behaviour, the template was a valid
  header with text \<open>H\<close>.  If the message conversion failed it returns \<open>-1\<close> and
  writes nothing; if the stream is in error it returns \<open>-1\<close>; otherwise it returns the
  logical length \<open>|H| + |m|\<close> and writes exactly one text, a prefix of \<open>H @ m\<close> of
  at most 255 characters: truncation drops characters at the end only.
\<close>

theorem vdbg_result:
  assumes "vdbg env hdr fname func lineno msg sk = Inr (r, sk')"
  shows "\<exists>H. hdr_text env fname func lineno hdr = Inr H \<and>
     (case msg of
        None \<Rightarrow> r = -1 \<and> sk' = sk
      | Some m \<Rightarrow>
          if sk_broken sk then r = -1 \<and> sk' = sk
          else r = int (length H + length m) \<and>
            (\<exists>out. sk' = sk\<lparr>sk_out := sk_out sk @ [out]\<rparr> \<and>
               out = take (length out) (H @ m) \<and> length out \<le> 255))"
proof -
  from assms obtain s where loop: "vdbg_loop env hdr fname func lineno msg vdbg_init = Inr s"
    by (auto simp: vdbg_def ub_bind_eq_Inr)
  from vdbg_loop_sound [OF loop fmt_inv_init] obtain H where
    H: "hdr_text env fname func lineno hdr = Inr H"
    and P: "case msg of None \<Rightarrow> fs_rc s = -1 | Some m \<Rightarrow> fmt_inv ([] @ H @ m) s"
    by (auto simp: vdbg_init_def)
  show ?thesis
  proof (cases msg)
    case None
    with assms loop P H show ?thesis by (auto simp: vdbg_def)
  next
    case (Some m)
    with P have inv: "fmt_inv (H @ m) s" by simp
    then have rc: "fs_rc s = int (length (H @ m))" and pT: "fs_p s \<le> length (H @ m)"
      and holds: "buf_holds (H @ m) (fs_p s) (fs_buf s)" and len: "length (fs_buf s) = 256"
      by (auto simp: fmt_inv_def)
    from assms loop rc obtain out where out: "c_str (fs_buf s) = Inr out"
      and res: "(let (rc2, sk'') = printf_s sk out in Inr (if rc2 < 0 then rc2 else fs_rc s, sk''))
                = (Inr (r, sk') :: ub + (int \<times> sink))"
      by (auto simp: vdbg_def ub_bind_eq_Inr)
    from c_str_prefix [OF out pT holds] len
    have "out = take (length out) (H @ m) \<and> length out \<le> 255" by simp
    with res rc Some H show ?thesis
      by (auto simp: printf_s_def split: if_splits)
  qed
qed

text \<open>
  C2: when the header text has at most 254 characters and header and message together at
  most 255, \<open>__vdbg\<close> writes the header followed by the message (up to its first
  terminator) and returns their total length.
\<close>

theorem vdbg_fits:
  assumes H: "hdr_text env fname func lineno hdr = Inr H" and "length H \<le> 254"
    and "length H + length m \<le> 255" and ok: "\<not> sk_broken sk"
  shows "vdbg env hdr fname func lineno (Some m) sk =
     Inr (int (length H + length m), sk\<lparr>sk_out := sk_out sk @ [H @ takeWhile (\<lambda>c. c \<noteq> NUL) m]\<rparr>)"
  using vdbg_loop_prints [OF assms(1-3)] ok by (auto simp: vdbg_def printf_s_def)

text \<open>
  C25: the truncation contract.  When the header text has at most 254 characters,
  \<open>__vdbg\<close> writes the first 255 characters of the header followed by the message (up to
  its first terminator), however long the message, and returns the length the full
  text would have had.
\<close>

theorem vdbg_truncates:
  assumes H: "hdr_text env fname func lineno hdr = Inr H" and "length H \<le> 254"
    and "int (length H + length m) \<le> INT_MAX" and ok: "\<not> sk_broken sk"
  shows "vdbg env hdr fname func lineno (Some m) sk =
     Inr (int (length H + length m),
          sk\<lparr>sk_out := sk_out sk @ [take 255 (H @ takeWhile (\<lambda>c. c \<noteq> NUL) m)]\<rparr>)"
  using vdbg_header_fits [OF assms(1-3), of sk] ok by simp

text \<open>
  C29: an unknown selector never causes an error: inserted after a well-formed part of
  the template whose header text has at most 254 characters, \<open>%Q\<close> changes nothing
  \<open>__vdbg\<close> prints or returns, and the call completes and prints the rest of the header
  and the message.
\<close>

theorem vdbg_unknown_selector:
  assumes t1: "hdr_tokens t1 = Inr ts" "NUL \<notin> set t1"
    and q: "q \<noteq> NUL" "q \<notin> {CHR ''%'', CHR ''B'', CHR ''f'', CHR ''F'', CHR ''l'', CHR ''p'', CHR ''T''}"
      "\<not> (q = CHR ''t'' \<and> env_has_gettid env)"
    and H: "hdr_text env fname func lineno (t1 @ t2) = Inr H" and len: "length H \<le> 254"
    and lim: "int (length H + length m) \<le> INT_MAX" and ok: "\<not> sk_broken sk"
  shows "vdbg env (t1 @ CHR ''%'' # q # t2) fname func lineno (Some m) sk = vdbg env (t1 @ t2) fname func lineno (Some m) sk \<and>
     vdbg env (t1 @ t2) fname func lineno (Some m) sk =
       Inr (int (length H + length m), sk\<lparr>sk_out := sk_out sk @ [take 255 (H @ takeWhile (\<lambda>c. c \<noteq> NUL) m)]\<rparr>)"
proof -
  have H': "hdr_text env fname func lineno (t1 @ CHR ''%'' # q # t2) = Inr H"
    using hdr_text_unknown_dir [OF t1 q(2,3)] H by simp
  from vdbg_header_fits [OF H len lim, of sk] vdbg_header_fits [OF H' len lim, of sk] ok
  show ?thesis by simp
qed

text \<open>
  C31: \<open>%%\<close> between well-formed parts of the template puts exactly one \<open>%\<close> at that
  position of the printed text, when the whole header text \<open>H1 @ "%" @ H2\<close> has at most
  254 characters.  Past that bound the direct store of \<open>%\<close> is unchecked and can write
  outside \<open>buf\<close> (C5).
\<close>

theorem vdbg_percent_literal:
  assumes t1: "hdr_text env fname func lineno t1 = Inr H1" "NUL \<notin> set t1"
    and t2: "hdr_text env fname func lineno t2 = Inr H2"
    and len: "length H1 + 1 + length H2 \<le> 254" and lim: "int (length H1 + 1 + length H2 + length m) \<le> INT_MAX"
    and ok: "\<not> sk_broken sk"
  shows "vdbg env (t1 @ ''%%'' @ t2) fname func lineno (Some m) sk =
     Inr (int (length H1 + 1 + length H2 + length m),
          sk\<lparr>sk_out := sk_out sk @ [take 255 (H1 @ ''%'' @ H2 @ takeWhile (\<lambda>c. c \<noteq> NUL) m)]\<rparr>)"
proof -
  obtain ts1 ts2 where "hdr_tokens t1 = Inr ts1" "hdr_tokens t2 = Inr ts2"
    using hdr_text_tokens [OF t1(1)] hdr_text_tokens [OF t2] by blast
  from hdr_text_dir_split [OF this(1) t1(2) this(2), of env fname func lineno "CHR ''%''"] t1 t2
  have H: "hdr_text env fname func lineno (t1 @ ''%%'' @ t2) = Inr (H1 @ ''%'' @ H2)"
    by (simp add: directive_text_def)
  from vdbg_header_fits [OF H, of m sk] len lim ok show ?thesis by simp
qed

text \<open>
  C32: a template of literal characters only, of at most 254 of them, is printed
  verbatim before the message (from 255 on, C4 shows the code reading a cell it never
  wrote).
\<close>

theorem vdbg_literal_verbatim:
  assumes "\<forall>c \<in> set t. c \<noteq> CHR ''%'' \<and> c \<noteq> NUL" and "length t \<le> 254"
    and "int (length t + length m) \<le> INT_MAX" and ok: "\<not> sk_broken sk"
  shows "vdbg env t fname func lineno (Some m) sk =
     Inr (int (length t + length m), sk\<lparr>sk_out := sk_out sk @ [take 255 (t @ takeWhile (\<lambda>c. c \<noteq> NUL) m)]\<rparr>)"
  using vdbg_header_fits [OF hdr_text_literal [OF assms(1), of env fname func lineno] assms(2,3), of sk] ok by simp

section \<open>Templates of literal characters only\<close>

lemma lit_inv_hdr [simp]: "lit_inv T (s\<lparr>fs_hdr := h\<rparr>) = lit_inv T s"
  by (simp add: lit_inv_def)

lemma lit_inv_step:
  assumes inv: "lit_inv T s" and c: "c \<noteq> NUL"
  shows "lit_inv (T @ [c]) (vdbg_advance s 1 (if 2 < fs_remaining s then (fs_buf s)[fs_p s := Some c] else fs_buf s))"
proof -
  from inv have fi: "fmt_inv T s" and nT: "NUL \<notin> set T"
    and ex: "buf_exact T (min (fs_p s) 254) (fs_buf s)"
    and un: "\<forall>i. min (fs_p s) 254 \<le> i \<longrightarrow> i < 256 \<longrightarrow> fs_buf s ! i = None"
    unfolding lit_inv_def by blast+
  from fi have r0: "0 \<le> fs_remaining s" and pr: "fs_p s + nat (fs_remaining s) = 256"
    and pT: "fs_p s \<le> length T" and pos: "0 < fs_remaining s \<longrightarrow> fs_p s = length T"
    and len: "length (fs_buf s) = 256"
    unfolding fmt_inv_def by blast+
  show ?thesis
  proof (cases "2 < fs_remaining s")
    case True
    let ?b = "(fs_buf s)[fs_p s := Some c]"
    have p: "fs_p s = length T" and p254: "fs_p s < 254" using True pos pr by auto
    have st: "cbuf_store (fs_buf s) (fs_p s) c = Inr ?b" using p254 len by (simp add: cbuf_store_def)
    obtain b where "cbuf_store (fs_buf s) (fs_p s) c = Inr b" and fb: "fmt_inv (T @ [c]) (vdbg_advance s 1 b)"
      using fmt_store [OF fi] True by (metis less_trans zero_less_numeral)
    with st have f1: "fmt_inv (T @ [c]) (vdbg_advance s 1 ?b)" by simp
    have acc: "fs_p (vdbg_advance s 1 ?b) = Suc (fs_p s)" "fs_buf (vdbg_advance s 1 ?b) = ?b"
      using True by (simp_all add: vdbg_advance_def)
    have e1: "buf_exact (T @ [c]) (Suc (fs_p s)) ?b"
      using ex p p254 len unfolding buf_exact_def by (auto simp: nth_list_update nth_append less_Suc_eq)
    have u1: "\<forall>i. Suc (fs_p s) \<le> i \<longrightarrow> i < 256 \<longrightarrow> ?b ! i = None"
      using un p254 by auto
    show ?thesis
      using True f1 acc e1 u1 nT c p254 unfolding lit_inv_def by simp
  next
    case False
    have p254: "254 \<le> fs_p s" using False pr r0 by linarith
    have f1: "fmt_inv (T @ [c]) (vdbg_advance s 1 (fs_buf s))" by (rule fmt_skip [OF fi])
    have acc: "254 \<le> fs_p (vdbg_advance s 1 (fs_buf s))" "fs_buf (vdbg_advance s 1 (fs_buf s)) = fs_buf s"
      using p254 by (simp_all add: vdbg_advance_def Let_def)
    have e1: "buf_exact (T @ [c]) 254 (fs_buf s)"
      using ex p254 pT unfolding buf_exact_def by (auto simp: nth_append min_def)
    have u1: "\<forall>i. 254 \<le> i \<longrightarrow> i < 256 \<longrightarrow> fs_buf s ! i = None"
      using un p254 by (simp add: min_def)
    show ?thesis
      using False f1 acc e1 u1 nT c unfolding lit_inv_def by (simp add: min_def)
  qed
qed

lemma vdbg_loop_literal:
  assumes "lit_inv T s" and "fs_hdr s \<le> length hdr"
    and "\<forall>c \<in> set (drop (fs_hdr s) hdr). c \<noteq> CHR ''%'' \<and> c \<noteq> NUL"
    and "254 < length T + (length hdr - fs_hdr s)" and "msg = Some m"
    and "int (length T + (length hdr - fs_hdr s) + length m) \<le> INT_MAX"
  shows "\<exists>s'. vdbg_loop env hdr fname func lineno msg s = Inr s' \<and> 0 \<le> fs_rc s' \<and>
     (\<forall>i < 254. fs_buf s' ! i \<noteq> None \<and> fs_buf s' ! i \<noteq> Some NUL) \<and>
     fs_buf s' ! 254 = None \<and> length (fs_buf s') = 256"
  using assms
proof (induction env hdr fname func lineno msg s arbitrary: T rule: vdbg_loop.induct)
  case (1 env hdr fname func lineno msg s)
  let ?h = "fs_hdr s"
  note inv = "1.prems"(1)
  have fi: "fmt_inv T s" using inv by (simp add: lit_inv_def)
  show ?case
  proof (cases "?h < length hdr")
    case True
    let ?c = "hdr ! ?h"
    have c: "tpl_at hdr ?h = Inr ?c" using True by (simp add: tpl_at_def)
    have "drop ?h hdr = ?c # drop (Suc ?h) hdr" using True by (simp add: drop_eq_nth_Cons)
    with "1.prems"(3) have cc: "?c \<noteq> NUL" "?c \<noteq> CHR ''%''" by auto
    define s1 where "s1 = (vdbg_advance s 1 (if 2 < fs_remaining s then (fs_buf s)[fs_p s := Some ?c] else fs_buf s))
                           \<lparr>fs_hdr := Suc ?h\<rparr>"
    have lim: "fs_rc s + 1 \<le> INT_MAX" using fi "1.prems"(6) True by (simp add: fmt_inv_def)
    have step: "vdbg_step env hdr fname func lineno msg s = Inr (?c, s1)"
      using vdbg_step_lit_acc [OF fi c cc] vdbg_account_adv [OF _ lim] by (simp add: s1_def)
    have inv1: "lit_inv (T @ [?c]) s1" using lit_inv_step [OF inv cc(1)] by (simp add: s1_def)
    have rc1: "0 \<le> fs_rc s1" using inv1 by (simp add: lit_inv_def fmt_inv_def)
    have h1: "fs_hdr s1 = Suc ?h" by (simp add: s1_def)
    have "set (drop (Suc ?h) hdr) \<subseteq> set (drop ?h hdr)"
      by (simp add: set_drop_subset_set_drop)
    with "1.prems"(3) have lits1: "\<forall>c \<in> set (drop (fs_hdr s1) hdr). c \<noteq> CHR ''%'' \<and> c \<noteq> NUL"
      using h1 by auto
    have hle1: "fs_hdr s1 \<le> length hdr" using h1 True by simp
    have ar: "254 < length (T @ [?c]) + (length hdr - fs_hdr s1)" using "1.prems"(4) h1 True by simp
    have lim1: "int (length (T @ [?c]) + (length hdr - fs_hdr s1) + length m) \<le> INT_MAX"
      using "1.prems"(6) h1 True by simp
    from "1.IH" [OF step refl _ inv1 hle1 lits1 ar "1.prems"(5) lim1] rc1 cc
    obtain s' where "vdbg_loop env hdr fname func lineno msg s1 = Inr s'" and "0 \<le> fs_rc s'"
      and "\<forall>i < 254. fs_buf s' ! i \<noteq> None \<and> fs_buf s' ! i \<noteq> Some NUL"
      and "fs_buf s' ! 254 = None \<and> length (fs_buf s') = 256"
      by auto
    with step rc1 cc show ?thesis by (simp add: vdbg_loop_step)
  next
    case False
    with "1.prems"(2) have hl: "?h = length hdr" by simp
    then have c: "tpl_at hdr ?h = Inr NUL" by (simp add: tpl_at_def)
    from inv have nT: "NUL \<notin> set T" and ex: "buf_exact T (min (fs_p s) 254) (fs_buf s)"
      and un: "\<forall>i. min (fs_p s) 254 \<le> i \<longrightarrow> i < 256 \<longrightarrow> fs_buf s ! i = None"
      unfolding lit_inv_def by blast+
    have T255: "254 < length T" using "1.prems"(4) hl by simp
    from fi have len: "length (fs_buf s) = 256" and pr: "fs_p s + nat (fs_remaining s) = 256"
      and pos: "0 < fs_remaining s \<longrightarrow> fs_p s = length T" and r0: "0 \<le> fs_remaining s"
      unfolding fmt_inv_def by blast+
    have p255: "254 < fs_p s"
    proof (cases "0 < fs_remaining s")
      case True with pos T255 show ?thesis by simp
    next
      case False with pr r0 show ?thesis by simp
    qed
    obtain b where snp: "snprintf (fs_buf s) (fs_p s) (size_of_int (fs_remaining s)) m = Inr (int (length m), b)"
      and i1: "fmt_inv (T @ m) (vdbg_advance s (int (length m)) b)"
      using fmt_put [OF fi] by blast
    have below: "b ! i = fs_buf s ! i" if "i < fs_p s" for i
      using snprintf_below [OF _ snp that] pr len fi by simp
    define s1 where "s1 = (vdbg_advance s (int (length m)) b)\<lparr>fs_hdr := Suc ?h\<rparr>"
    have lim: "fs_rc s + int (length m) \<le> INT_MAX" using fi "1.prems"(6) hl by (simp add: fmt_inv_def)
    have step: "vdbg_step env hdr fname func lineno msg s = Inr (NUL, s1)"
      using c snp "1.prems"(5) vdbg_account_adv [OF _ lim] by (simp add: vdbg_step_def vsnprintf_def s1_def)
    have b1: "fs_buf s1 = b" by (simp add: s1_def)
    have "0 \<le> fs_rc s1" "length (fs_buf s1) = 256" using i1 by (simp_all add: s1_def fmt_inv_def)
    moreover have "\<forall>i < 254. fs_buf s1 ! i \<noteq> None \<and> fs_buf s1 ! i \<noteq> Some NUL"
    proof (intro allI impI)
      fix i assume i: "i < (254::nat)"
      have "fs_buf s ! i = Some (T ! i)" using ex i p255 by (simp add: buf_exact_def min_def)
      moreover have "T ! i \<noteq> NUL" using nT i T255 by (metis less_trans nth_mem)
      ultimately show "fs_buf s1 ! i \<noteq> None \<and> fs_buf s1 ! i \<noteq> Some NUL"
        using below [of i] i p255 b1 by simp
    qed
    moreover have "fs_buf s1 ! 254 = None"
      using un p255 below [of 254] b1 by (simp add: min_def)
    ultimately show ?thesis using step by (simp add: vdbg_loop_step)
  qed
qed

text \<open>
  C4: the boundary of the literal-copy rule.  A header of 255 or more literal characters
  (no directive) makes \<open>__vdbg\<close> print from an array cell that was never written:
  the character at index 254 is skipped because only two slots remain, but the pointer
  still advances past it.  (For a header and message longer than \<open>INT_MAX\<close> the count overflows first: C24.)
\<close>

theorem vdbg_literal_overrun:
  assumes "\<forall>c \<in> set hdr. c \<noteq> CHR ''%'' \<and> c \<noteq> NUL" and "255 \<le> length hdr"
    and "int (length hdr + length m) \<le> INT_MAX"
  shows "vdbg env hdr fname func lineno (Some m) sk = Inl Read_uninit"
proof -
  have "lit_inv [] vdbg_init"
    by (simp add: lit_inv_def fmt_inv_init buf_exact_def) (simp add: vdbg_init_def)
  from vdbg_loop_literal [OF this, of hdr "Some m" m env fname func lineno] assms
  obtain s where loop: "vdbg_loop env hdr fname func lineno (Some m) vdbg_init = Inr s" and "0 \<le> fs_rc s"
    and "\<forall>i < 254. fs_buf s ! i \<noteq> None \<and> fs_buf s ! i \<noteq> Some NUL"
    and "fs_buf s ! 254 = None" and "length (fs_buf s) = 256"
    by (auto simp: vdbg_init_def)
  moreover from this have "c_str (fs_buf s) = Inl Read_uninit"
    by (intro c_str_uninit [of 254]) simp_all
  ultimately show ?thesis by (simp add: vdbg_def)
qed

text \<open>
  A template of literals only, when the text it makes and the message together pass
  \<open>INT_MAX\<close>: some \<open>rc += rc2\<close> overflows.
\<close>

lemma vdbg_loop_literal_ovf:
  assumes "fmt_inv T s" and "fs_hdr s \<le> length hdr"
    and "\<forall>c \<in> set (drop (fs_hdr s) hdr). c \<noteq> CHR ''%'' \<and> c \<noteq> NUL" and "msg = Some m"
    and "INT_MAX < int (length T + (length hdr - fs_hdr s) + length m)"
  shows "vdbg_loop env hdr fname func lineno msg s = Inl Int_overflow"
  using assms
proof (induction env hdr fname func lineno msg s arbitrary: T rule: vdbg_loop.induct)
  case (1 env hdr fname func lineno msg s)
  let ?h = "fs_hdr s"
  note inv = "1.prems"(1)
  have rc: "fs_rc s = int (length T)" using inv by (simp add: fmt_inv_def)
  show ?case
  proof (cases "?h < length hdr")
    case True
    let ?c = "hdr ! ?h"
    have c: "tpl_at hdr ?h = Inr ?c" using True by (simp add: tpl_at_def)
    have "drop ?h hdr = ?c # drop (Suc ?h) hdr" using True by (simp add: drop_eq_nth_Cons)
    with "1.prems"(3) have cc: "?c \<noteq> NUL" "?c \<noteq> CHR ''%''" by auto
    show ?thesis
    proof (cases "int (length T) < INT_MAX")
      case lim: True
      obtain s1 where step: "vdbg_step env hdr fname func lineno msg s = Inr (?c, s1)"
        and h1: "fs_hdr s1 = Suc ?h" and inv1: "fmt_inv (T @ [?c]) s1"
        using vdbg_step_lit [OF inv c cc lim] by blast
      have rc1: "0 \<le> fs_rc s1" using inv1 by (simp add: fmt_inv_def)
      have "set (drop (Suc ?h) hdr) \<subseteq> set (drop ?h hdr)" by (simp add: set_drop_subset_set_drop)
      with "1.prems"(3) h1 have lits1: "\<forall>c \<in> set (drop (fs_hdr s1) hdr). c \<noteq> CHR ''%'' \<and> c \<noteq> NUL"
        by auto
      have hle1: "fs_hdr s1 \<le> length hdr" using h1 True by simp
      have ovf1: "INT_MAX < int (length (T @ [?c]) + (length hdr - fs_hdr s1) + length m)"
        using "1.prems"(5) h1 True by simp
      from "1.IH" [OF step refl _ inv1 hle1 lits1 "1.prems"(4) ovf1] rc1 cc
      have "vdbg_loop env hdr fname func lineno msg s1 = Inl Int_overflow" by simp
      with step rc1 cc show ?thesis by (simp add: vdbg_loop_step)
    next
      case False
      then have "vdbg_step env hdr fname func lineno msg s = Inl Int_overflow"
        using vdbg_step_lit_acc [OF inv c cc] vdbg_account_ovf [of 1 s] rc by simp
      then show ?thesis by (rule vdbg_loop_step_err)
    qed
  next
    case False
    with "1.prems"(2) have hl: "?h = length hdr" by simp
    then have c: "tpl_at hdr ?h = Inr NUL" by (simp add: tpl_at_def)
    obtain b where "vdbg_step env hdr fname func lineno (Some m) s =
        ub_bind (vdbg_account s (int (length m)) b) (\<lambda>s1. Inr (NUL, s1\<lparr>fs_hdr := Suc ?h\<rparr>))"
      using vdbg_step_end_acc [OF inv c] by blast
    moreover have "INT_MAX < fs_rc s + int (length m)" using "1.prems"(5) hl rc by simp
    ultimately have "vdbg_step env hdr fname func lineno msg s = Inl Int_overflow"
      using "1.prems"(4) vdbg_account_ovf [of "int (length m)" s] by simp
    then show ?thesis by (rule vdbg_loop_step_err)
  qed
qed

section \<open>The invariant, overflows and template errors\<close>

text \<open>
  C3: every iteration of the loop of \<open>__vdbg\<close> keeps the buffer invariant (in
  particular \<open>p + remaining = 256\<close> and \<open>remaining \<ge> 0\<close>): the text produced grows
  by the piece the iteration handled; only the final iteration with a failed message
  conversion leaves \<open>rc = -1\<close>.
\<close>

theorem vdbg_step_keeps_inv:
  assumes "fmt_inv T s" and "vdbg_step env hdr fname func lineno msg s = Inr (c, s')"
  shows "(\<exists>x. fmt_inv (T @ x) s') \<or> (c = NUL \<and> msg = None \<and> fs_rc s' = -1)"
  using vdbg_step_cases [OF assms] by (auto split: option.splits)

theorem vdbg_step_keeps_inv_witness:
  "\<exists>c s'. vdbg_step \<lparr>env_pid = 100, env_tid = 101, env_clock = None, env_has_gettid = True\<rparr>
      ''a%l'' ''dbg.c'' ''main'' 7 (Some ''m'') vdbg_init = Inr (c, s') \<and> (\<exists>x. fmt_inv ([] @ x) s')"
proof -
  obtain c s' where st: "vdbg_step \<lparr>env_pid = 100, env_tid = 101, env_clock = None, env_has_gettid = True\<rparr>
      ''a%l'' ''dbg.c'' ''main'' 7 (Some ''m'') vdbg_init = Inr (c, s')"
    by (simp add: dbg_eval)
  from vdbg_step_keeps_inv [OF fmt_inv_init st] st show ?thesis by auto
qed

text \<open>
  C5: \<open>%%\<close> stores its character without checking \<open>remaining\<close>.  After a directive
  whose text filled the array (a file name of 256 characters or more for \<open>%F\<close>, short
  enough for an \<open>int\<close> count), it writes one byte past the end of \<open>buf\<close>.
\<close>

theorem vdbg_pct_overflow:
  assumes "256 \<le> length (fmt_s fname)" and "int (length (fmt_s fname)) \<le> INT_MAX"
  shows "vdbg env (''%F%%'' @ rest) fname func lineno msg sk = Inl (Write_oob 256)"
proof -
  let ?t = "''%F%%'' @ rest"
  have c0: "tpl_at ?t (fs_hdr vdbg_init) = Inr (CHR ''%'')"
    and d0: "tpl_at ?t (Suc (fs_hdr vdbg_init)) = Inr (CHR ''F'')"
    by (simp_all add: tpl_at_def vdbg_init_def)
  have x: "directive_text env fname func lineno (CHR ''F'') = Inr (fmt_s fname)"
    by (simp add: directive_text_def)
  obtain s1 where step: "vdbg_step env ?t fname func lineno msg vdbg_init = Inr (CHR ''%'', s1)"
    and h1: "fs_hdr s1 = Suc (Suc (fs_hdr vdbg_init))" and inv1: "fmt_inv ([] @ fmt_s fname) s1"
    using vdbg_step_dir [OF fmt_inv_init c0 d0 x] assms(2) by auto
  have r0: "fs_remaining s1 = 0" using inv1 assms(1) by (auto simp: fmt_inv_def)
  have c2: "tpl_at ?t (fs_hdr s1) = Inr (CHR ''%'')" and d2: "tpl_at ?t (Suc (fs_hdr s1)) = Inr (CHR ''%'')"
    using h1 by (simp_all add: tpl_at_def vdbg_init_def)
  have "vdbg_step env ?t fname func lineno msg s1 = Inl (Write_oob 256)"
    using vdbg_step_pct_oob [OF inv1 c2 d2 r0] .
  moreover have "0 \<le> fs_rc s1" using inv1 by (simp add: fmt_inv_def)
  ultimately show ?thesis using step
    by (simp add: vdbg_def vdbg_loop_step vdbg_loop_step_err)
qed

theorem vdbg_pct_overflow_witness:
  "vdbg \<lparr>env_pid = 100, env_tid = 101, env_clock = None, env_has_gettid = True\<rparr>
     ''%F%%'' (replicate 256 (CHR ''a'')) ''main'' 7 (Some '''') \<lparr>sk_out = [], sk_broken = False\<rparr>
   = Inl (Write_oob 256)"
proof -
  have "256 \<le> length (fmt_s (replicate 256 (CHR ''a'')))"
    and "int (length (fmt_s (replicate 256 (CHR ''a'')))) \<le> INT_MAX"
    by (simp_all add: fmt_s_def takeWhile_eq_all_conv NUL_def INT_MAX_def)
  from vdbg_pct_overflow [OF this, of _ "[]"] show ?thesis by simp
qed

text \<open>
  C6: a template that is not a well-formed header (a trailing lone \<open>%\<close>, which makes the
  loop step over the terminator) or whose \<open>%T\<close> meets a failing clock always ends in
  undefined behaviour.
\<close>

theorem vdbg_bad_template:
  assumes "hdr_text env fname func lineno hdr = Inl e"
  shows "\<exists>e'. vdbg env hdr fname func lineno msg sk = Inl e'"
proof (cases "vdbg_loop env hdr fname func lineno msg vdbg_init")
  case (Inl e')
  then show ?thesis by (simp add: vdbg_def)
next
  case (Inr s)
  from vdbg_loop_sound [OF Inr fmt_inv_init] assms show ?thesis by (simp add: vdbg_init_def)
qed

theorem vdbg_bad_template_witness:
  "\<exists>e'. vdbg \<lparr>env_pid = 100, env_tid = 101, env_clock = None, env_has_gettid = True\<rparr>
     ''ab%'' ''dbg.c'' ''main'' 7 (Some ''m'') \<lparr>sk_out = [], sk_broken = False\<rparr> = Inl e'"
proof -
  have "hdr_text \<lparr>env_pid = 100, env_tid = 101, env_clock = None, env_has_gettid = True\<rparr>
          ''dbg.c'' ''main'' 7 ''ab%'' = Inl Read_oob"
    by (simp add: dbg_eval)
  from vdbg_bad_template [OF this] show ?thesis .
qed

text \<open>
  C24: \<open>rc\<close> is a C \<open>int\<close>: when a template of literal characters and the message
  (itself within \<open>INT_MAX\<close>, as \<open>vsnprintf\<close> requires) together exceed \<open>INT_MAX\<close>
  characters, \<open>rc += rc2\<close> overflows, which is undefined behaviour; the function never
  reaches its \<open>printf\<close>.
\<close>

theorem vdbg_rc_overflow:
  assumes "\<forall>c \<in> set hdr. c \<noteq> CHR ''%'' \<and> c \<noteq> NUL" and "int (length m) \<le> INT_MAX"
    and "INT_MAX < int (length hdr + length m)"
  shows "vdbg env hdr fname func lineno (Some m) sk = Inl Int_overflow"
proof -
  have "vdbg_loop env hdr fname func lineno (Some m) vdbg_init = Inl Int_overflow"
    using vdbg_loop_literal_ovf [OF fmt_inv_init, of hdr "Some m" m] assms by (simp add: vdbg_init_def)
  then show ?thesis by (simp add: vdbg_def)
qed

theorem vdbg_rc_overflow_witness:
  "vdbg \<lparr>env_pid = 100, env_tid = 101, env_clock = None, env_has_gettid = True\<rparr>
     (replicate (2 ^ 31) (CHR ''a'')) ''dbg.c'' ''main'' 42 (Some []) \<lparr>sk_out = [], sk_broken = False\<rparr>
   = Inl Int_overflow"
  by (rule vdbg_rc_overflow) (simp_all add: NUL_def INT_MAX_def)

section \<open>Witnesses\<close>

theorem vdbg_result_witness:
  "\<exists>out. out = take (length out) (''main:42: '' @ ''hi'') \<and> length out \<le> 255 \<and>
     vdbg \<lparr>env_pid = 100, env_tid = 101, env_clock = Some (7, 250000000), env_has_gettid = True\<rparr> ''%f:%l: '' ''dbg.c'' ''main'' 42 (Some ''hi'')
       \<lparr>sk_out = [], sk_broken = False\<rparr> = Inr (11, \<lparr>sk_out = [out], sk_broken = False\<rparr>)"
proof -
  have run: "vdbg \<lparr>env_pid = 100, env_tid = 101, env_clock = Some (7, 250000000), env_has_gettid = True\<rparr> ''%f:%l: '' ''dbg.c'' ''main'' 42 (Some ''hi'')
       \<lparr>sk_out = [], sk_broken = False\<rparr> = Inr (11, \<lparr>sk_out = [''main:42: hi''], sk_broken = False\<rparr>)"
    by (simp add: dbg_eval vdbg_loop.simps)
  from vdbg_result [OF run] run show ?thesis by (auto simp: dbg_eval)
qed

theorem vdbg_fits_witness:
  "vdbg \<lparr>env_pid = 100, env_tid = 101, env_clock = Some (7, 250000000), env_has_gettid = True\<rparr> ''%f:%l: '' ''dbg.c'' ''main'' 42 (Some ''hi'')
     \<lparr>sk_out = [], sk_broken = False\<rparr> = Inr (11, \<lparr>sk_out = [''main:42: hi''], sk_broken = False\<rparr>)"
proof -
  have H: "hdr_text \<lparr>env_pid = 100, env_tid = 101, env_clock = Some (7, 250000000), env_has_gettid = True\<rparr> ''dbg.c'' ''main'' 42 ''%f:%l: '' = Inr ''main:42: ''"
    by (simp add: dbg_eval)
  have "length ''main:42: '' \<le> 254" "length ''main:42: '' + length ''hi'' \<le> 255"
    "\<not> sk_broken \<lparr>sk_out = [], sk_broken = False\<rparr>"
    by simp_all
  from vdbg_fits [OF H this] show ?thesis by (simp add: NUL_def)
qed

theorem vdbg_literal_overrun_witness:
  "vdbg \<lparr>env_pid = 100, env_tid = 101, env_clock = Some (7, 250000000), env_has_gettid = True\<rparr> (replicate 255 (CHR ''a'')) ''dbg.c'' ''main'' 42 (Some ''hi'')
     \<lparr>sk_out = [], sk_broken = False\<rparr> = Inl Read_uninit"
  by (rule vdbg_literal_overrun) (simp_all add: NUL_def INT_MAX_def)

theorem vdbg_truncates_witness:
  "vdbg \<lparr>env_pid = 100, env_tid = 101, env_clock = Some (7, 250000000), env_has_gettid = True\<rparr> ''%f:%l: '' ''dbg.c'' ''main'' 42
     (Some (replicate 300 (CHR ''x''))) \<lparr>sk_out = [], sk_broken = False\<rparr>
   = Inr (309, \<lparr>sk_out = [''main:42: '' @ replicate 246 (CHR ''x'')], sk_broken = False\<rparr>)"
proof -
  have H: "hdr_text \<lparr>env_pid = 100, env_tid = 101, env_clock = Some (7, 250000000), env_has_gettid = True\<rparr> ''dbg.c'' ''main'' 42 ''%f:%l: '' = Inr ''main:42: ''"
    by (simp add: dbg_eval)
  have "length ''main:42: '' \<le> 254" "int (length ''main:42: '' + length (replicate 300 (CHR ''x''))) \<le> INT_MAX"
    "\<not> sk_broken \<lparr>sk_out = [], sk_broken = False\<rparr>"
    by (simp_all add: INT_MAX_def)
  from vdbg_truncates [OF H this] show ?thesis by (simp add: NUL_def)
qed

theorem vdbg_unknown_selector_witness:
  "vdbg \<lparr>env_pid = 100, env_tid = 101, env_clock = None, env_has_gettid = True\<rparr> ''%f%Q: '' ''dbg.c'' ''main'' 42
     (Some ''hi'') \<lparr>sk_out = [], sk_broken = False\<rparr> =
   vdbg \<lparr>env_pid = 100, env_tid = 101, env_clock = None, env_has_gettid = True\<rparr> ''%f: '' ''dbg.c'' ''main'' 42
     (Some ''hi'') \<lparr>sk_out = [], sk_broken = False\<rparr> \<and>
   vdbg \<lparr>env_pid = 100, env_tid = 101, env_clock = None, env_has_gettid = True\<rparr> ''%f: '' ''dbg.c'' ''main'' 42
     (Some ''hi'') \<lparr>sk_out = [], sk_broken = False\<rparr> = Inr (8, \<lparr>sk_out = [''main: hi''], sk_broken = False\<rparr>)"
proof -
  have t1: "hdr_tokens ''%f'' = Inr [Dir (CHR ''f'')]" "NUL \<notin> set ''%f''" by (simp_all add: NUL_def)
  have H: "hdr_text \<lparr>env_pid = 100, env_tid = 101, env_clock = None, env_has_gettid = True\<rparr> ''dbg.c'' ''main'' 42
      (''%f'' @ '': '') = Inr ''main: ''"
    by (simp add: dbg_eval)
  from vdbg_unknown_selector [OF t1 _ _ _ H, of "CHR ''Q''" "''hi''" "\<lparr>sk_out = [], sk_broken = False\<rparr>"]
  show ?thesis by (simp add: NUL_def INT_MAX_def)
qed

theorem vdbg_percent_literal_witness:
  "vdbg \<lparr>env_pid = 100, env_tid = 101, env_clock = None, env_has_gettid = True\<rparr> (''%f'' @ ''%%'' @ '' '')
     ''dbg.c'' ''main'' 42 (Some ''hi'') \<lparr>sk_out = [], sk_broken = False\<rparr> =
   Inr (8, \<lparr>sk_out = [''main% hi''], sk_broken = False\<rparr>)"
proof -
  have "hdr_text \<lparr>env_pid = 100, env_tid = 101, env_clock = None, env_has_gettid = True\<rparr> ''dbg.c'' ''main'' 42 ''%f''
      = Inr ''main''" "NUL \<notin> set ''%f''"
    "hdr_text \<lparr>env_pid = 100, env_tid = 101, env_clock = None, env_has_gettid = True\<rparr> ''dbg.c'' ''main'' 42 '' ''
      = Inr '' ''"
    by (simp_all add: dbg_eval)
  from vdbg_percent_literal [OF this, of "''hi''" "\<lparr>sk_out = [], sk_broken = False\<rparr>"]
  show ?thesis by (simp add: INT_MAX_def NUL_def)
qed

theorem vdbg_literal_verbatim_witness:
  "vdbg \<lparr>env_pid = 100, env_tid = 101, env_clock = None, env_has_gettid = True\<rparr> ''[dbg] ''
     ''dbg.c'' ''main'' 42 (Some ''hi'') \<lparr>sk_out = [], sk_broken = False\<rparr> =
   Inr (8, \<lparr>sk_out = [''[dbg] hi''], sk_broken = False\<rparr>)"
  using vdbg_literal_verbatim [of "''[dbg] ''" "''hi''" "\<lparr>sk_out = [], sk_broken = False\<rparr>"]
  by (simp add: INT_MAX_def NUL_def)

end
