(* ===== verification/Dbg_Hex.thy ===== *)
theory Dbg_Hex
  imports Dbg_Format
begin

text \<open>
  The contiguous hexadecimal dumper, \<open>__vdbg_hex\<close> of \<^verbatim>\<open>src/dbg.c\<close> (lines 183--227):
  a caption through \<open>__vdbg\<close>, then one row per 16 bytes, each rendered into the
  256-byte stack array \<open>out_buf\<close> by \<open>snprintf\<close> calls and written with one
  \<open>printf("%s%s", out_buf, EOL)\<close>.  The column loop is \<open>hex_cols\<close>, one row
  \<open>hex_row\<close>, the row loop \<open>hex_rows\<close>.  The row counter is a 32-bit \<open>unsigned\<close>
  compared with a 64-bit \<open>size_t\<close> row count, so the row loop may run for ever: it is
  a \<^theory_text>\<open>partial_function (option)\<close>, \<open>None\<close> being non-termination.  The
  abstract layout \<open>hex_dump\<close> says what a dump prints; the lemmas show that the code
  prints it for every buffer of fewer than \<open>2^32\<close> bytes, that sizes within 15 of
  \<open>SIZE_MAX\<close> print no row at all, and that \<open>2^32\<close> rows or more never terminate.
\<close>

section \<open>The code\<close>

text \<open>The macros \<open>N_ROW_ITEMS\<close> (an \<open>unsigned\<close> constant, \<open>16u\<close>) and \<open>EOL\<close> (carriage return, line feed).\<close>

definition N_ROW_ITEMS :: u32 where
  "N_ROW_ITEMS = 16"

definition EOL :: string where
  "EOL = [CHR 0x0D, CHR 0x0A]"

text \<open>\<open>((unsigned char * )in_buf)[k]\<close>: the caller's buffer is the list \<open>data\<close>.\<close>

definition byte_at :: "u8 list \<Rightarrow> nat \<Rightarrow> ub + u8" where
  "byte_at data k = (if k < length data then Inr (data ! k) else Inl Read_oob)"

text \<open>
  The column loop of lines 211--220: \<open>j\<close> runs up to \<open>n_cols\<close>, each column is
  \<open>snprintf(p, remaining, "%s%02x", sep, in_buf[i * N_ROW_ITEMS + j])\<close> (the index an
  \<open>unsigned\<close> expression, so it wraps at \<open>2^32\<close>), a negative result is returned
  (\<open>Inl rc\<close> of the inner sum), \<open>p\<close> and the \<open>size_t\<close> \<open>remaining\<close> move by
  \<open>rc\<close>, and \<open>sep\<close> becomes a space.
\<close>

function hex_cols ::
  "u8 list \<Rightarrow> u32 \<Rightarrow> nat \<Rightarrow> nat \<Rightarrow> string \<Rightarrow> cbuf \<Rightarrow> nat \<Rightarrow> u64 \<Rightarrow> ub + (int + cbuf \<times> nat \<times> u64)"
where
  "hex_cols data i n_cols j sep b p remaining =
     (if j < n_cols then
        ub_bind (byte_at data (unat (i * N_ROW_ITEMS + of_nat j))) (\<lambda>x.
          ub_bind (snprintf b p (unat remaining) (sep @ fmt_02x (unat x))) (\<lambda>(rc, b').
            if rc < 0 then Inr (Inl rc)
            else hex_cols data i n_cols (Suc j) '' '' b' (p + nat rc) (remaining - word_of_int rc)))
      else Inr (Inr (b, p, remaining)))"
  by pat_completeness auto
termination
  by (relation "measure (\<lambda>(data, i, n_cols, j, sep, b, p, remaining). n_cols - j)") auto

declare hex_cols.simps [simp del]

text \<open>
  One row (lines 192--220): the prefix \<open>"%02x: "\<close> of the row index \<open>i\<close>, the
  column count \<open>MIN(size - i * N_ROW_ITEMS, N_ROW_ITEMS)\<close> (the product in 32 bits, the
  difference in \<open>size_t\<close>), the columns, and the text \<open>printf\<close> then reads from
  \<open>out_buf\<close>.  \<open>Inl rc\<close> of the inner sum is an early \<open>return rc\<close>.
\<close>

definition hex_row :: "u8 list \<Rightarrow> u64 \<Rightarrow> u32 \<Rightarrow> ub + (int + string)" where
  "hex_row data sz i =
     ub_bind (snprintf (replicate 256 None) 0 256 (fmt_02x (unat i) @ '': '')) (\<lambda>(rc, b).
       if rc < 0 then Inr (Inl rc)
       else
         let n_cols = unat (MIN_macro (sz - ucast (i * N_ROW_ITEMS)) (ucast N_ROW_ITEMS)) in
         ub_bind (hex_cols data i n_cols 0 [] b (nat rc) (256 - word_of_int rc)) (\<lambda>r.
           case r of
             Inl rc' \<Rightarrow> Inr (Inl rc')
           | Inr (b', p', remaining') \<Rightarrow> ub_bind (c_str b') (\<lambda>out. Inr (Inr out))))"

text \<open>
  The row loop of line 191: \<open>i < (size + N_ROW_ITEMS - 1) / N_ROW_ITEMS\<close> in
  \<open>size_t\<close>, each row written by \<open>printf("%s%s", out_buf, EOL)\<close> (line 221),
  \<open>i++\<close> in 32 bits.
\<close>

partial_function (option) hex_rows :: "u8 list \<Rightarrow> u64 \<Rightarrow> u32 \<Rightarrow> sink \<Rightarrow> (ub + (int \<times> sink)) option"
where
  "hex_rows data sz i sk =
     (if ucast i < (sz + ucast N_ROW_ITEMS - 1) div ucast N_ROW_ITEMS then
        (case hex_row data sz i of
           Inl e \<Rightarrow> Some (Inl e)
         | Inr (Inl rc) \<Rightarrow> Some (Inr (rc, sk))
         | Inr (Inr out) \<Rightarrow>
             (let (rc, sk') = printf_s sk (out @ EOL) in
              if rc < 0 then Some (Inr (rc, sk')) else hex_rows data sz (i + 1) sk'))
      else Some (Inr (0, sk)))"

text \<open>\<open>__vdbg_hex\<close>: the caption (its result discarded, line 189), then the rows.\<close>

definition vdbg_hex ::
  "dbg_env \<Rightarrow> string \<Rightarrow> string \<Rightarrow> string \<Rightarrow> u32 \<Rightarrow> u8 list \<Rightarrow> u64 \<Rightarrow> string option \<Rightarrow> sink \<Rightarrow>
   (ub + (int \<times> sink)) option"
where
  "vdbg_hex env hdr file func lineno data sz msg sk =
     (case vdbg env hdr file func lineno msg sk of
        Inl e \<Rightarrow> Some (Inl e)
      | Inr (rc, sk1) \<Rightarrow> hex_rows data sz 0 sk1)"

section \<open>The specification of a dump\<close>

text \<open>
  A row of \<open>xs\<close>: the bytes as two hex digits each, the first preceded by \<open>sep\<close>,
  every later one by a space.
\<close>

fun sep_bytes :: "string \<Rightarrow> u8 list \<Rightarrow> string" where
  "sep_bytes sep [] = []"
| "sep_bytes sep (x # xs) = sep @ fmt_02x (unat x) @ sep_bytes '' '' xs"

definition hex_line :: "nat \<Rightarrow> u8 list \<Rightarrow> string" where
  "hex_line r xs = fmt_02x r @ '': '' @ sep_bytes [] xs"

text \<open>The rows of a dump of \<open>xs\<close>: row \<open>r\<close> holds bytes \<open>16 r\<close> to \<open>16 r + 15\<close>.\<close>

definition hex_dump :: "u8 list \<Rightarrow> string list" where
  "hex_dump xs = map (\<lambda>r. hex_line r (take 16 (drop (16 * r) xs)) @ EOL) [0..<(length xs + 15) div 16]"

text \<open>
  Reading a dump back: the value of a hex digit, the bytes of a run of two-digit items
  separated by one character (reading stops at the first non-digit), the bytes of a row
  (the items after the \<open>": "\<close> that ends the row index).
\<close>

definition hex_val :: "char \<Rightarrow> nat" where
  "hex_val c = length (takeWhile (\<lambda>d. d \<noteq> c) hexchars)"

fun unhex_bytes :: "string \<Rightarrow> u8 list" where
  "unhex_bytes (a # b # rest) =
     (if a \<in> set hexchars \<and> b \<in> set hexchars
      then of_nat (16 * hex_val a + hex_val b) # unhex_bytes (drop 1 rest) else [])"
| "unhex_bytes _ = []"

definition unhex_row :: "string \<Rightarrow> u8 list" where
  "unhex_row l = unhex_bytes (drop 2 (dropWhile (\<lambda>c. c \<noteq> CHR '':'') l))"

declare N_ROW_ITEMS_def [dbg_eval] EOL_def [dbg_eval] byte_at_def [dbg_eval] hex_row_def [dbg_eval]
  vdbg_hex_def [dbg_eval] hex_line_def [dbg_eval] hex_dump_def [dbg_eval]

section \<open>Unfolding the loops\<close>

lemma hex_rows_stop [dbg_eval]:
  "\<not> ucast i < (sz + ucast N_ROW_ITEMS - 1) div ucast N_ROW_ITEMS \<Longrightarrow> hex_rows data sz i sk = Some (Inr (0, sk))"
  by (simp add: hex_rows.simps)

lemma hex_rows_go [dbg_eval]:
  "ucast i < (sz + ucast N_ROW_ITEMS - 1) div ucast N_ROW_ITEMS \<Longrightarrow> hex_rows data sz i sk =
        (case hex_row data sz i of
           Inl e \<Rightarrow> Some (Inl e)
         | Inr (Inl rc) \<Rightarrow> Some (Inr (rc, sk))
         | Inr (Inr out) \<Rightarrow>
             (let (rc, sk') = printf_s sk (out @ EOL) in
              if rc < 0 then Some (Inr (rc, sk')) else hex_rows data sz (i + 1) sk'))"
  by (subst hex_rows.simps) simp

lemma hex_cols_stop [dbg_eval]:
  "\<not> j < n_cols \<Longrightarrow> hex_cols data i n_cols j sep b p remaining = Inr (Inr (b, p, remaining))"
  by (simp add: hex_cols.simps)

lemma hex_cols_go [dbg_eval]:
  "j < n_cols \<Longrightarrow> hex_cols data i n_cols j sep b p remaining =
        ub_bind (byte_at data (unat (i * N_ROW_ITEMS + of_nat j))) (\<lambda>x.
          ub_bind (snprintf b p (unat remaining) (sep @ fmt_02x (unat x))) (\<lambda>(rc, b').
            if rc < 0 then Inr (Inl rc)
            else hex_cols data i n_cols (Suc j) '' '' b' (p + nat rc) (remaining - word_of_int rc)))"
  by (simp add: hex_cols.simps)

section \<open>Rows\<close>

lemma length_sep_bytes:
  "length (sep_bytes sep xs) = (if xs = [] then 0 else length sep + 3 * length xs - 1)"
  by (induction xs arbitrary: sep) auto

lemma NUL_notin_sep_bytes: "NUL \<notin> set sep \<Longrightarrow> NUL \<notin> set (sep_bytes sep xs)"
  by (induction xs arbitrary: sep) auto

text \<open>
  The column loop appends the separated bytes to the text in \<open>out_buf\<close>, keeping it
  terminated, as long as the row fits.
\<close>

lemma hex_cols_text:
  assumes "buf_exact T p b" and "p = length T" and "length b = 256" and "p + unat remaining = 256"
    and "b ! p = Some NUL"
    and "length xs = n_cols - j"
    and "\<forall>k. j \<le> k \<longrightarrow> k < n_cols \<longrightarrow> byte_at data (unat (i * N_ROW_ITEMS + of_nat k)) = Inr (xs ! (k - j))"
    and "p + length (sep_bytes sep xs) < 256"
  shows "\<exists>b'. hex_cols data i n_cols j sep b p remaining =
           Inr (Inr (b', p + length (sep_bytes sep xs), remaining - of_nat (length (sep_bytes sep xs)))) \<and>
         buf_exact (T @ sep_bytes sep xs) (p + length (sep_bytes sep xs)) b' \<and>
         b' ! (p + length (sep_bytes sep xs)) = Some NUL \<and> length b' = 256"
  using assms
proof (induction xs arbitrary: j sep b p remaining T)
  case Nil
  then show ?case by (simp add: hex_cols_stop)
next
  case (Cons x xs)
  let ?s = "sep @ fmt_02x (unat x)"
  have j: "j < n_cols" using Cons.prems(6) by simp
  have bx: "byte_at data (unat (i * N_ROW_ITEMS + of_nat j)) = Inr x"
    using Cons.prems(7) j by auto
  have ls: "length (sep_bytes sep (x # xs)) = length ?s + length (sep_bytes '' '' xs)"
    by simp
  obtain rc b1 where snp: "snprintf b p (unat remaining) ?s = Inr (rc, b1)"
    using Cons.prems(3,4) by (simp add: snprintf_Inr)
  then have rc: "rc = int (length ?s)" using Cons.prems(3,4) by (simp add: snprintf_Inr)
  have fit: "length ?s < unat remaining" using Cons.prems(4,8) ls by simp
  from snprintf_exact [OF Cons.prems(1,2) _ fit snp] Cons.prems(3,4)
  have ex1: "buf_exact (T @ ?s) (p + length ?s) b1" and nul1: "b1 ! (p + length ?s) = Some NUL"
    by simp_all
  have len1: "length b1 = 256" using snp Cons.prems(3,4) by (auto simp: snprintf_Inr)
  have "unat (remaining - word_of_int rc) = unat remaining - length ?s"
    unfolding rc by (rule unat_sub_of_nat) (use fit in simp)
  then have rem1: "p + length ?s + unat (remaining - word_of_int rc) = 256"
    using fit Cons.prems(4) by linarith
  have bytes: "\<forall>k. Suc j \<le> k \<longrightarrow> k < n_cols \<longrightarrow> byte_at data (unat (i * N_ROW_ITEMS + of_nat k)) = Inr (xs ! (k - Suc j))"
    using Cons.prems(7) by (auto simp: Suc_diff_Suc)
  have pT1: "p + length ?s = length (T @ ?s)" using Cons.prems(2) by simp
  have lx: "length xs = n_cols - Suc j" using Cons.prems(6) by simp
  have fit2: "p + length ?s + length (sep_bytes '' '' xs) < 256" using Cons.prems(8) ls by simp
  from Cons.IH [OF ex1 pT1 len1 rem1 nul1 lx bytes fit2]
  obtain b' where
    rec: "hex_cols data i n_cols (Suc j) '' '' b1 (p + length ?s) (remaining - word_of_int rc) =
      Inr (Inr (b', p + length ?s + length (sep_bytes '' '' xs),
                remaining - word_of_int rc - of_nat (length (sep_bytes '' '' xs))))"
    and "buf_exact (T @ ?s @ sep_bytes '' '' xs) (p + length ?s + length (sep_bytes '' '' xs)) b'"
    and "b' ! (p + length ?s + length (sep_bytes '' '' xs)) = Some NUL" and "length b' = 256"
    by (auto simp only: append_assoc)
  moreover have "hex_cols data i n_cols j sep b p remaining =
      hex_cols data i n_cols (Suc j) '' '' b1 (p + length ?s) (remaining - word_of_int rc)"
  proof -
    have "nat rc = length ?s" and "0 \<le> rc" by (simp_all only: rc nat_int of_nat_0_le_iff)
    with bx snp show ?thesis by (subst hex_cols_go [OF j]) simp
  qed
  ultimately show ?case using rc by (simp add: add.assoc)
qed

lemma n_cols_le: "unat (min (a :: u64) (ucast N_ROW_ITEMS)) \<le> 16"
  by (simp add: N_ROW_ITEMS_def min_def word_le_nat_alt)

lemma hex_row_text:
  assumes n: "n_cols = unat (min (sz - ucast (i * N_ROW_ITEMS)) (ucast N_ROW_ITEMS))"
    and xs: "length xs = n_cols"
    and bytes: "\<forall>k < n_cols. byte_at data (unat (i * N_ROW_ITEMS + of_nat k)) = Inr (xs ! k)"
  shows "hex_row data sz i = Inr (Inr (fmt_02x (unat i) @ '': '' @ sep_bytes [] xs))"
proof -
  let ?pre = "fmt_02x (unat i) @ '': ''"
  let ?b0 = "replicate 256 (None :: char option)"
  have lpre: "length ?pre \<le> 10" using fmt_02x_u32_length [of i] by simp
  have l16: "length xs \<le> 16" using n_cols_le xs n by simp
  have lrow: "length ?pre + length (sep_bytes [] xs) < 256"
    using fmt_02x_u32_length [of i] l16 by (simp add: length_sep_bytes, arith)
  obtain b1 where snp: "snprintf ?b0 0 256 ?pre = Inr (int (length ?pre), b1)"
    by (simp add: snprintf_Inr)
  have "buf_exact [] 0 ?b0" by (simp add: buf_exact_def)
  from snprintf_exact [OF this _ _ _ snp] lpre
  have ex1: "buf_exact ?pre (length ?pre) b1" and nul1: "b1 ! length ?pre = Some NUL" by simp_all
  have len1: "length b1 = 256" using snp by (auto simp: snprintf_Inr)
  have "unat (256 - word_of_int (int (length ?pre)) :: u64) = 256 - length ?pre"
    using lpre by (subst unat_sub_of_nat) simp_all
  then have rem1: "length ?pre + unat (256 - word_of_int (int (length ?pre)) :: u64) = 256"
    using lpre by linarith
  have bytes0: "\<forall>k. 0 \<le> k \<longrightarrow> k < n_cols \<longrightarrow> byte_at data (unat (i * N_ROW_ITEMS + of_nat k)) = Inr (xs ! (k - 0))"
    using bytes by simp
  from hex_cols_text [OF ex1 refl len1 rem1 nul1 _ bytes0, of "[]"] xs lrow
  obtain b' where cols: "hex_cols data i n_cols 0 [] b1 (length ?pre) (256 - word_of_int (int (length ?pre))) =
      Inr (Inr (b', length ?pre + length (sep_bytes [] xs),
        256 - word_of_int (int (length ?pre)) - of_nat (length (sep_bytes [] xs))))"
    and ex2: "buf_exact (?pre @ sep_bytes [] xs) (length ?pre + length (sep_bytes [] xs)) b'"
    and nul2: "b' ! (length ?pre + length (sep_bytes [] xs)) = Some NUL" and len2: "length b' = 256"
    by auto
  have "c_str b' = Inr (takeWhile (\<lambda>c. c \<noteq> NUL) (?pre @ sep_bytes [] xs))"
    using c_str_exact [of "?pre @ sep_bytes [] xs" b'] ex2 nul2 len2 lrow by simp
  also have "takeWhile (\<lambda>c. c \<noteq> NUL) (?pre @ sep_bytes [] xs) = ?pre @ sep_bytes [] xs"
    using NUL_notin_sep_bytes [of "[]" xs] by (auto simp: takeWhile_eq_all_conv)
  finally have out: "c_str b' = Inr (?pre @ sep_bytes [] xs)" .
  show ?thesis
    using snp cols out n by (simp add: hex_row_def Let_def)
qed

lemma unat_row_index:
  "16 * r + k < 2 ^ 32 \<Longrightarrow> unat (of_nat r * N_ROW_ITEMS + of_nat k :: u32) = 16 * r + k"
proof -
  assume lt: "16 * r + k < 2 ^ 32"
  have "of_nat r * N_ROW_ITEMS + of_nat k = (of_nat (16 * r + k) :: u32)"
    by (simp add: N_ROW_ITEMS_def)
  moreover have "unat (of_nat (16 * r + k) :: u32) = (16 * r + k) mod 2 ^ 32"
    by (subst unat_of_nat) simp
  moreover have "(16 * r + k) mod 2 ^ 32 = 16 * r + k"
    using lt by (rule mod_less)
  ultimately show ?thesis by (simp only:)
qed

lemma hex_n_cols:
  assumes "16 * r < unat (sz :: u64)" and "unat sz < 2 ^ 32"
  shows "unat (min (sz - ucast (of_nat r * N_ROW_ITEMS :: u32)) (ucast N_ROW_ITEMS)) = min (unat sz - 16 * r) 16"
proof -
  have u: "unat (ucast (of_nat r * N_ROW_ITEMS :: u32) :: u64) = 16 * r"
    using unat_row_index [of r 0] assms by (simp add: unat_ucast_u32)
  then have "unat (sz - ucast (of_nat r * N_ROW_ITEMS :: u32)) = unat sz - 16 * r"
    using assms(1) by (simp add: unat_sub word_le_nat_alt)
  moreover have "unat (ucast N_ROW_ITEMS :: u64) = 16" by (simp add: N_ROW_ITEMS_def)
  ultimately show ?thesis by (simp add: min_def word_le_nat_alt)
qed

lemma hex_row_spec:
  assumes "16 * r < unat sz" and "unat sz \<le> length data" and "unat sz < 2 ^ 32"
  shows "hex_row data sz (of_nat r) = Inr (Inr (hex_line r (take 16 (drop (16 * r) (take (unat sz) data)))))"
proof -
  let ?xs = "take 16 (drop (16 * r) (take (unat sz) data))"
  have ur: "unat (of_nat r :: u32) = r" using assms by (simp add: unat_of_nat)
  have n: "min (unat sz - 16 * r) 16 = unat (min (sz - ucast (of_nat r * N_ROW_ITEMS :: u32)) (ucast N_ROW_ITEMS))"
    using hex_n_cols [OF assms(1,3)] by simp
  have l: "length ?xs = min (unat sz - 16 * r) 16" using assms(2) by simp
  have "\<forall>k < min (unat sz - 16 * r) 16. byte_at data (unat (of_nat r * N_ROW_ITEMS + of_nat k :: u32)) = Inr (?xs ! k)"
    using assms by (auto simp: unat_row_index byte_at_def)
  from hex_row_text [OF n l this] ur show ?thesis by (simp add: hex_line_def)
qed

lemma row_offset_wrap:
  "k < 16 \<Longrightarrow> (16 * r + k) mod 2 ^ 32 = 16 * r mod 2 ^ 32 + k \<and> 16 * r mod 2 ^ 32 + 16 \<le> (2 :: nat) ^ 32"
proof -
  assume k: "k < 16"
  have m: "16 * r mod 4294967296 = 16 * (r mod 268435456)"
    using mult_mod_right [of 16 r 268435456] by simp
  have "r mod 268435456 < (268435456 :: nat)" by simp
  then have le: "16 * (r mod 268435456) + 16 \<le> (4294967296 :: nat)" by linarith
  have "(16 * r + k) mod 4294967296 = (16 * r mod 4294967296 + k) mod 4294967296" by (simp add: mod_add_left_eq)
  also have "\<dots> = 16 * r mod 4294967296 + k" using le k m by (intro mod_less) linarith
  finally show ?thesis using le m by simp
qed

lemma unat_row_index_wrap:
  "k < 16 \<Longrightarrow> unat (of_nat r * N_ROW_ITEMS + of_nat k :: u32) = 16 * r mod 2 ^ 32 + k"
proof -
  assume k: "k < 16"
  have "of_nat r * N_ROW_ITEMS + of_nat k = (of_nat (16 * r + k) :: u32)"
    by (simp add: N_ROW_ITEMS_def)
  moreover have "unat (of_nat (16 * r + k) :: u32) = (16 * r + k) mod 2 ^ 32"
    by (subst unat_of_nat) simp
  ultimately show ?thesis using row_offset_wrap [OF k, of r] by simp
qed

lemma hex_row_wrap_spec:
  assumes "2 ^ 32 \<le> unat sz" and "2 ^ 32 \<le> length data" and "r < 2 ^ 32"
  shows "hex_row data sz (of_nat r) = Inr (Inr (hex_line r (take 16 (drop (16 * r mod 2 ^ 32) data))))"
proof -
  let ?o = "16 * r mod 2 ^ 32"
  let ?xs = "take 16 (drop ?o data)"
  have o: "?o + 16 \<le> 2 ^ 32" using row_offset_wrap [of 0 r] by simp
  have ur: "unat (of_nat r :: u32) = r" using assms(3) by (simp add: unat_of_nat)
  have u: "unat (ucast (of_nat r * N_ROW_ITEMS :: u32) :: u64) = ?o"
    using unat_row_index_wrap [of 0 r] by (simp add: unat_ucast_u32)
  then have "unat (sz - ucast (of_nat r * N_ROW_ITEMS :: u32)) = unat sz - ?o"
    using assms(1) o by (simp add: unat_sub word_le_nat_alt)
  moreover have "16 \<le> unat sz - ?o" using assms(1) o by linarith
  ultimately have n: "16 = unat (min (sz - ucast (of_nat r * N_ROW_ITEMS :: u32)) (ucast N_ROW_ITEMS))"
    by (simp add: N_ROW_ITEMS_def min_def word_le_nat_alt)
  have l: "length ?xs = 16" using assms(2) o by simp
  have "\<forall>k < 16. byte_at data (unat (of_nat r * N_ROW_ITEMS + of_nat k :: u32)) = Inr (?xs ! k)"
    using assms(2) o by (auto simp: unat_row_index_wrap byte_at_def)
  from hex_row_text [OF n l this] ur show ?thesis by (simp add: hex_line_def)
qed

section \<open>The row loop\<close>

lemma hex_rows_cond_wide:
  assumes "unat sz < 2 ^ 36" and "r < 2 ^ 32"
  shows "(ucast (of_nat r :: u32) :: u64) < (sz + ucast N_ROW_ITEMS - 1) div ucast N_ROW_ITEMS \<longleftrightarrow>
         r < (unat sz + 15) div 16"
proof -
  have "unat ((sz + ucast N_ROW_ITEMS - 1) div ucast N_ROW_ITEMS) = (unat sz + 15) div 16"
    using assms(1) by (simp add: N_ROW_ITEMS_def unat_div unat_add_lem [THEN iffD1])
  moreover have "unat (ucast (of_nat r :: u32) :: u64) = r"
    using assms(2) by (simp add: unat_ucast_u32 unat_of_nat)
  ultimately show ?thesis by (simp add: word_less_nat_alt)
qed

lemma hex_rows_cond:
  assumes "unat sz < 2 ^ 32" and "r < 2 ^ 32"
  shows "(ucast (of_nat r :: u32) :: u64) < (sz + ucast N_ROW_ITEMS - 1) div ucast N_ROW_ITEMS \<longleftrightarrow>
         r < (unat sz + 15) div 16"
  using hex_rows_cond_wide [of sz r] assms by simp

lemma hex_rows_dump:
  assumes "unat sz \<le> length data" and "unat sz < 2 ^ 32" and "\<not> sk_broken sk"
    and "r \<le> (unat sz + 15) div 16"
  shows "hex_rows data sz (of_nat r) sk =
    Some (Inr (0, sk\<lparr>sk_out := sk_out sk @
      map (\<lambda>r. hex_line r (take 16 (drop (16 * r) (take (unat sz) data))) @ EOL) [r..<(unat sz + 15) div 16]\<rparr>))"
  using assms
proof (induction "(unat sz + 15) div 16 - r" arbitrary: r sk)
  case 0
  then have "r = (unat sz + 15) div 16" by simp
  with 0 hex_rows_cond [of sz r] show ?case by (simp add: hex_rows_stop)
next
  case (Suc d)
  let ?line = "hex_line r (take 16 (drop (16 * r) (take (unat sz) data))) @ EOL"
  have r: "r < (unat sz + 15) div 16" using Suc.hyps by simp
  then have r16: "16 * r < unat sz" by linarith
  have cond: "(ucast (of_nat r :: u32) :: u64) < (sz + ucast N_ROW_ITEMS - 1) div ucast N_ROW_ITEMS"
    using hex_rows_cond [of sz r] Suc.prems(2) r16 r by simp
  let ?sk = "sk\<lparr>sk_out := sk_out sk @ [?line]\<rparr>"
  have IH: "hex_rows data sz (of_nat (Suc r)) ?sk =
    Some (Inr (0, ?sk\<lparr>sk_out := sk_out ?sk @
      map (\<lambda>r. hex_line r (take 16 (drop (16 * r) (take (unat sz) data))) @ EOL) [Suc r..<(unat sz + 15) div 16]\<rparr>))"
    using Suc.hyps(1) [of "Suc r" ?sk] Suc.hyps(2) Suc.prems r by simp
  have "hex_rows data sz (of_nat r) sk = hex_rows data sz (of_nat (Suc r)) ?sk"
    using hex_row_spec [OF r16 Suc.prems(1,2)] Suc.prems(3)
    by (simp add: hex_rows_go [OF cond] printf_s_def add.commute)
  with IH r show ?case by (simp add: upt_conv_Cons)
qed

lemma hex_rows_wrap_dump:
  assumes "2 ^ 32 \<le> unat sz" and "unat sz \<le> length data" and "unat sz + 15 < 2 ^ 36" and "\<not> sk_broken sk"
    and "r \<le> (unat sz + 15) div 16"
  shows "hex_rows data sz (of_nat r) sk =
    Some (Inr (0, sk\<lparr>sk_out := sk_out sk @
      map (\<lambda>r. hex_line r (take 16 (drop (16 * r mod 2 ^ 32) data)) @ EOL) [r..<(unat sz + 15) div 16]\<rparr>))"
  using assms
proof (induction "(unat sz + 15) div 16 - r" arbitrary: r sk)
  case 0
  then have r: "r = (unat sz + 15) div 16" and "r < 2 ^ 32" by simp_all
  with 0 hex_rows_cond_wide [of sz r] show ?case by (simp add: hex_rows_stop)
next
  case (Suc d)
  let ?line = "hex_line r (take 16 (drop (16 * r mod 2 ^ 32) data)) @ EOL"
  have r: "r < (unat sz + 15) div 16" using Suc.hyps by simp
  then have r32: "r < 2 ^ 32" using Suc.prems(3) by simp
  have cond: "(ucast (of_nat r :: u32) :: u64) < (sz + ucast N_ROW_ITEMS - 1) div ucast N_ROW_ITEMS"
    using hex_rows_cond_wide [of sz r] Suc.prems(3) r32 r by simp
  let ?sk = "sk\<lparr>sk_out := sk_out sk @ [?line]\<rparr>"
  have IH: "hex_rows data sz (of_nat (Suc r)) ?sk =
    Some (Inr (0, ?sk\<lparr>sk_out := sk_out ?sk @
      map (\<lambda>r. hex_line r (take 16 (drop (16 * r mod 2 ^ 32) data)) @ EOL) [Suc r..<(unat sz + 15) div 16]\<rparr>))"
    using Suc.hyps(1) [of "Suc r" ?sk] Suc.hyps(2) Suc.prems r by simp
  have "2 ^ 32 \<le> length data" using Suc.prems(1,2) by linarith
  then have "hex_rows data sz (of_nat r) sk = hex_rows data sz (of_nat (Suc r)) ?sk"
    using hex_row_wrap_spec [OF Suc.prems(1) _ r32] Suc.prems(4)
    by (simp add: hex_rows_go [OF cond] printf_s_def add.commute)
  with IH r show ?case by (simp add: upt_conv_Cons)
qed

lemma hex_row_some:
  assumes "2 ^ 32 \<le> length data"
  shows "\<exists>out. hex_row data sz i = Inr (Inr out)"
proof -
  let ?n = "unat (min (sz - ucast (i * N_ROW_ITEMS)) (ucast N_ROW_ITEMS))"
  let ?xs = "map (\<lambda>k. data ! unat (i * N_ROW_ITEMS + of_nat k)) [0..<?n]"
  have "\<forall>k < ?n. byte_at data (unat (i * N_ROW_ITEMS + of_nat k)) = Inr (?xs ! k)"
  proof (intro allI impI)
    fix k
    have "unat (i * N_ROW_ITEMS + of_nat k) < 2 ^ 32"
      using unsigned_less [of "i * N_ROW_ITEMS + of_nat k", where ?'a = nat] by simp
    with assms show "byte_at data (unat (i * N_ROW_ITEMS + of_nat k)) = Inr (?xs ! k)" if "k < ?n"
      using that by (simp add: byte_at_def)
  qed
  from hex_row_text [OF refl _ this] show ?thesis by auto
qed

lemma hex_rows_diverges:
  assumes "unat sz \<le> length data" and "2 ^ 36 - 15 \<le> unat sz" and "unat sz + 15 < 2 ^ 64"
    and "\<not> sk_broken sk"
  shows "hex_rows data sz i sk = None"
proof -
  have rows: "(ucast j :: u64) < (sz + ucast N_ROW_ITEMS - 1) div ucast N_ROW_ITEMS" for j :: u32
  proof -
    have "unat ((sz + ucast N_ROW_ITEMS - 1) div ucast N_ROW_ITEMS) = (unat sz + 15) div 16"
      using assms(3) by (simp add: N_ROW_ITEMS_def unat_div unat_add_lem [THEN iffD1])
    moreover have "unat j < 2 ^ 32" using unsigned_less [of j, where ?'a = nat] by simp
    ultimately show ?thesis using assms(2) by (simp add: word_less_nat_alt unat_ucast_u32)
  qed
  have row: "\<exists>out. hex_row data sz j = Inr (Inr out)" for j
    using assms(1,2) by (intro hex_row_some) simp
  have "\<forall>j sk' y. hex_rows data sz j sk' = Some y \<longrightarrow> sk_broken sk'"
    apply (rule hex_rows.fixp_induct [where P = "\<lambda>f. \<forall>j sk' y. f data sz j sk' = Some y \<longrightarrow> sk_broken sk'"])
    subgoal
    proof -
      have eq: "(\<lambda>g. \<forall>j sk' y. curry (curry (curry g)) data sz j sk' = Some y \<longrightarrow> sk_broken sk') =
            (\<lambda>g. \<forall>x y. g x = Some y \<longrightarrow>
              (fst (fst (fst x)) = data \<and> snd (fst (fst x)) = sz \<longrightarrow> sk_broken (snd x)))"
        by (rule ext) (auto simp: curry_def)
      show ?thesis unfolding eq by (rule option_admissible)
    qed
    subgoal by simp
    subgoal for f
    proof (intro allI impI)
      fix j sk' y
      assume IH: "\<forall>j sk' y. f data sz j sk' = Some y \<longrightarrow> sk_broken sk'"
        and run: "(if ucast j < (sz + ucast N_ROW_ITEMS - 1) div ucast N_ROW_ITEMS
             then case hex_row data sz j of Inl e \<Rightarrow> Some (Inl e)
                  | Inr (Inl rc) \<Rightarrow> Some (Inr (rc, sk'))
                  | Inr (Inr out) \<Rightarrow>
                      let c = printf_s sk' (out @ EOL)
                      in case c of
                         (rc, sk'') \<Rightarrow>
                           if rc < 0 then Some (Inr (rc, sk''))
                           else f data sz (j + 1) sk''
             else Some (Inr (0, sk'))) = Some y"
      show "sk_broken sk'"
      proof (rule ccontr)
        assume ok: "\<not> sk_broken sk'"
        obtain out where out: "hex_row data sz j = Inr (Inr out)" using row by blast
        from run rows [of j] out ok
        have "f data sz (j + 1) (sk'\<lparr>sk_out := sk_out sk' @ [out @ EOL]\<rparr>) = Some y"
          by (simp add: printf_s_def)
        with IH [rule_format, of "j + 1" "sk'\<lparr>sk_out := sk_out sk' @ [out @ EOL]\<rparr>" y] ok
        show False by simp
      qed
    qed
    done
  then show ?thesis using assms(4) by (cases "hex_rows data sz i sk") auto
qed

lemma hex_rows_wrap:
  assumes "2 ^ 64 - 15 \<le> unat sz"
  shows "hex_rows data sz i sk = Some (Inr (0, sk))"
proof -
  have "unat (sz + ucast N_ROW_ITEMS - 1) = unat sz + 15 - 2 ^ 64"
    using assms unsigned_less [of sz, where ?'a = nat] by (simp add: N_ROW_ITEMS_def unat_plus_if')
  then have "unat ((sz + ucast N_ROW_ITEMS - 1) div ucast N_ROW_ITEMS) = 0"
    using assms unsigned_less [of sz, where ?'a = nat] by (simp add: N_ROW_ITEMS_def unat_div)
  then show ?thesis by (simp add: hex_rows_stop word_less_nat_alt)
qed

lemma vdbg_sink_broken:
  "vdbg env hdr fname func lineno msg sk = Inr (rc, sk1) \<Longrightarrow> sk_broken sk1 = sk_broken sk"
  by (auto simp: vdbg_def ub_bind_eq_Inr printf_s_def split: if_splits)

lemma vdbg_main_run:
  "vdbg \<lparr>env_pid = 100, env_tid = 101, env_clock = Some (7, 250000000), env_has_gettid = True\<rparr>
     ''%f:%l: '' ''dbg.c'' ''main'' 42 (Some ''hi'') \<lparr>sk_out = [], sk_broken = False\<rparr> =
   Inr (11, \<lparr>sk_out = [''main:42: hi''], sk_broken = False\<rparr>)"
  by (simp add: dbg_eval vdbg_loop.simps)

section \<open>Reading a dump back\<close>

lemma hex_val_digit: "n < 16 \<Longrightarrow> hex_val (hexchars ! n) = n"
  by (simp add: hex_val_def hexchars_def less_Suc_eq numeral_eq_Suc, elim disjE) simp_all

lemma fmt_02x_u8: "fmt_02x (unat (x :: u8)) = [hexchars ! (unat x div 16), hexchars ! (unat x mod 16)]"
proof (cases "unat x < 16")
  case True
  then show ?thesis by (simp add: fmt_02x_def pad0_def hex_digits.simps hexchars_def)
next
  case False
  have "unat x < 256" using unsigned_less [of x, where ?'a = nat] by simp
  then have "unat x div 16 < 16" by simp
  with False show ?thesis by (simp add: fmt_02x_def pad0_def hex_digits.simps)
qed

lemma unhex_u8:
  "16 * (of_nat (hex_val (hexchars ! (unat x div 16))) :: u8) + of_nat (hex_val (hexchars ! (unat x mod 16))) = x"
proof -
  have "unat x < 256" using unsigned_less [of x, where ?'a = nat] by simp
  then have "unat x div 16 < 16" by simp
  then have n: "16 * hex_val (hexchars ! (unat x div 16)) + hex_val (hexchars ! (unat x mod 16)) = unat x"
    by (simp add: hex_val_digit)
  have "(of_nat (16 * hex_val (hexchars ! (unat x div 16)) + hex_val (hexchars ! (unat x mod 16))) :: u8) =
        of_nat (unat x)" by (simp only: n)
  then show ?thesis by simp
qed

lemma unhex_item: "unhex_bytes (fmt_02x (unat x) @ sep_bytes '' '' xs @ EOL) = x # xs"
proof (induction xs arbitrary: x)
  case Nil
  have "unat x div 16 < 16" "unat x mod 16 < 16"
    using unsigned_less [of x, where ?'a = nat] by simp_all
  then show ?case by (simp add: fmt_02x_u8 unhex_u8 EOL_def)
next
  case (Cons y ys)
  have "unat x div 16 < 16" "unat x mod 16 < 16"
    using unsigned_less [of x, where ?'a = nat] by simp_all
  with Cons.IH [of y] show ?case by (simp add: fmt_02x_u8 unhex_u8)
qed

lemma colon_notin_fmt_02x: "CHR '':'' \<notin> set (fmt_02x n)"
  using hex_digits_set [of n] by (auto simp: fmt_02x_def pad0_def hexchars_def)

lemma dropWhile_fmt_02x [simp]:
  "dropWhile (\<lambda>c. c \<noteq> CHR '':'') (fmt_02x n @ ys) = dropWhile (\<lambda>c. c \<noteq> CHR '':'') ys"
  using colon_notin_fmt_02x [of n] by (auto intro: dropWhile_append2)

lemma unhex_hex_line: "unhex_row (hex_line r xs @ EOL) = xs"
proof (cases xs)
  case Nil
  then show ?thesis
    by (simp add: unhex_row_def hex_line_def EOL_def hexchars_def)
next
  case (Cons y ys)
  then show ?thesis
    using unhex_item [of y ys]
    by (simp add: unhex_row_def hex_line_def)
qed

lemma concat_rows_take: "concat (map (\<lambda>r. take 16 (drop (16 * r) xs)) [0..<n]) = take (16 * n) xs"
proof (induction n)
  case (Suc n)
  have "take (16 * Suc n) xs = take (16 * n) xs @ take 16 (drop (16 * n) xs)"
    using take_add [of "16 * n" 16 xs] by (simp add: add.commute)
  with Suc show ?case by simp
qed simp

lemma unhex_hex_dump: "concat (map unhex_row (hex_dump xs)) = xs"
proof -
  have "map unhex_row (hex_dump xs) = map (\<lambda>r. take 16 (drop (16 * r) xs)) [0..<(length xs + 15) div 16]"
    by (simp add: hex_dump_def unhex_hex_line)
  moreover have "length xs \<le> 16 * ((length xs + 15) div 16)" by simp
  ultimately show ?thesis by (simp add: concat_rows_take)
qed

section \<open>Properties of the contiguous dumper\<close>

text \<open>
  C10: for a buffer of fewer than \<open>2^32\<close> bytes, \<open>__vdbg_hex\<close> terminates, prints the
  caption and then exactly the rows of the abstract dump (row index, the bytes in hex,
  \<open>EOL\<close>), one \<open>printf\<close> per row, and returns 0, whatever \<open>__vdbg\<close> returned.
\<close>

theorem vdbg_hex_dump:
  assumes "vdbg env hdr fname func lineno msg sk = Inr (rc, sk1)"
    and "unat sz \<le> length data" and "unat sz < 2 ^ 32" and "\<not> sk_broken sk"
  shows "vdbg_hex env hdr fname func lineno data sz msg sk =
           Some (Inr (0, sk1\<lparr>sk_out := sk_out sk1 @ hex_dump (take (unat sz) data)\<rparr>))"
  using hex_rows_dump [of sz data sk1 0] assms vdbg_sink_broken [OF assms(1)]
  by (simp add: vdbg_hex_def hex_dump_def min_absorb2)

theorem vdbg_hex_dump_witness:
  "vdbg_hex \<lparr>env_pid = 100, env_tid = 101, env_clock = Some (7, 250000000), env_has_gettid = True\<rparr>
     ''%f:%l: '' ''dbg.c'' ''main'' 42 [1, 0xab, 3] 3 (Some ''hi'') \<lparr>sk_out = [], sk_broken = False\<rparr> =
   Some (Inr (0, \<lparr>sk_out = [''main:42: hi'', ''00: 01 ab 03'' @ EOL], sk_broken = False\<rparr>))"
proof -
  have "hex_dump (take (unat (3 :: u64)) [1, 0xab, 3]) = [''00: 01 ab 03'' @ EOL]"
    by (simp add: hex_dump_def hex_line_def dbg_eval)
  with vdbg_hex_dump [OF vdbg_main_run, of 3 "[1, 0xab, 3]"] show ?thesis by simp
qed

text \<open>
  C11: \<open>size + N_ROW_ITEMS - 1\<close> is computed in \<open>size_t\<close>: for a size within 15 of
  \<open>SIZE_MAX\<close> it wraps, the row count is 0 and nothing but the caption is printed.
\<close>

theorem vdbg_hex_size_wrap:
  assumes "vdbg env hdr fname func lineno msg sk = Inr (rc, sk1)" and "2 ^ 64 - 15 \<le> unat sz"
  shows "vdbg_hex env hdr fname func lineno data sz msg sk = Some (Inr (0, sk1))"
  using assms hex_rows_wrap by (simp add: vdbg_hex_def)

theorem vdbg_hex_size_wrap_witness:
  "vdbg_hex \<lparr>env_pid = 100, env_tid = 101, env_clock = Some (7, 250000000), env_has_gettid = True\<rparr>
     ''%f:%l: '' ''dbg.c'' ''main'' 42 [] 0xFFFFFFFFFFFFFFFF (Some ''hi'') \<lparr>sk_out = [], sk_broken = False\<rparr> =
   Some (Inr (0, \<lparr>sk_out = [''main:42: hi''], sk_broken = False\<rparr>))"
  using vdbg_hex_size_wrap [OF vdbg_main_run, of "0xFFFFFFFFFFFFFFFF"] by simp

text \<open>
  C12: the row counter is a 32-bit \<open>unsigned\<close>: for a buffer of \<open>2^32\<close> rows or
  more (\<open>size \<ge> 2^36 - 15\<close>) it wraps back to 0 before reaching the row count, and
  \<open>__vdbg_hex\<close> never returns.
\<close>

theorem vdbg_hex_diverges:
  assumes "vdbg env hdr fname func lineno msg sk = Inr (rc, sk1)"
    and "unat sz \<le> length data" and "2 ^ 36 - 15 \<le> unat sz" and "unat sz + 15 < 2 ^ 64"
    and "\<not> sk_broken sk"
  shows "vdbg_hex env hdr fname func lineno data sz msg sk = None"
  using assms hex_rows_diverges [of sz data sk1 0] vdbg_sink_broken [OF assms(1)]
  by (simp add: vdbg_hex_def)

theorem vdbg_hex_diverges_witness:
  "vdbg_hex \<lparr>env_pid = 100, env_tid = 101, env_clock = Some (7, 250000000), env_has_gettid = True\<rparr>
     ''%f:%l: '' ''dbg.c'' ''main'' 42 (replicate (2 ^ 36) 0) (2 ^ 36) (Some ''hi'')
     \<lparr>sk_out = [], sk_broken = False\<rparr> = None"
  using vdbg_hex_diverges [OF vdbg_main_run, of "2 ^ 36" "replicate (2 ^ 36) 0"] by simp

text \<open>
  C18: a failing output stream: when the caption's \<open>printf\<close> reports an error, the dump
  stops at the first row and \<open>__vdbg_hex\<close> returns that row's negative \<open>printf\<close> result,
  printing nothing more.
\<close>

theorem vdbg_hex_write_error:
  assumes "vdbg env hdr fname func lineno msg sk = Inr (rc, sk1)" and "sk_broken sk"
    and "0 < unat sz" and "unat sz \<le> length data" and "unat sz < 2 ^ 32"
  shows "vdbg_hex env hdr fname func lineno data sz msg sk = Some (Inr (-1, sk1))"
proof -
  have "(ucast (of_nat 0 :: u32) :: u64) < (sz + ucast N_ROW_ITEMS - 1) div ucast N_ROW_ITEMS"
    using hex_rows_cond [of sz 0] assms(3,5) by simp
  moreover have "hex_row data sz (of_nat 0) = Inr (Inr (hex_line 0 (take 16 (drop 0 (take (unat sz) data)))))"
    using hex_row_spec [of 0 sz data] assms(3-5) by simp
  moreover have "sk_broken sk1" using vdbg_sink_broken [OF assms(1)] assms(2) by simp
  ultimately show ?thesis using assms(1)
    by (simp add: vdbg_hex_def hex_rows_go printf_s_def)
qed

theorem vdbg_hex_write_error_witness:
  "vdbg_hex \<lparr>env_pid = 100, env_tid = 101, env_clock = Some (7, 250000000), env_has_gettid = True\<rparr>
     ''%f:%l: '' ''dbg.c'' ''main'' 42 [1, 2, 3] 3 (Some ''hi'') \<lparr>sk_out = [], sk_broken = True\<rparr> =
   Some (Inr (-1, \<lparr>sk_out = [], sk_broken = True\<rparr>))"
proof -
  have "vdbg \<lparr>env_pid = 100, env_tid = 101, env_clock = Some (7, 250000000), env_has_gettid = True\<rparr>
     ''%f:%l: '' ''dbg.c'' ''main'' 42 (Some ''hi'') \<lparr>sk_out = [], sk_broken = True\<rparr> =
     Inr (-1, \<lparr>sk_out = [], sk_broken = True\<rparr>)"
    by (simp add: dbg_eval vdbg_loop.simps)
  from vdbg_hex_write_error [OF this, of 3 "[1, 2, 3]"] show ?thesis by simp
qed

text \<open>
  C20: the dump is lossless: for a buffer of fewer than \<open>2^32\<close> bytes, reading back the
  rows \<open>__vdbg_hex\<close> prints after the caption (each row's bytes after its \<open>": "\<close>)
  gives exactly the \<open>size\<close> bytes of the buffer, in order.
\<close>

theorem vdbg_hex_roundtrip:
  assumes "vdbg env hdr fname func lineno msg sk = Inr (rc, sk1)"
    and "unat sz \<le> length data" and "unat sz < 2 ^ 32" and "\<not> sk_broken sk"
  shows "\<exists>rows. vdbg_hex env hdr fname func lineno data sz msg sk = Some (Inr (0, sk1\<lparr>sk_out := sk_out sk1 @ rows\<rparr>)) \<and>
           concat (map unhex_row rows) = take (unat sz) data"
proof -
  have "vdbg_hex env hdr fname func lineno data sz msg sk =
          Some (Inr (0, sk1\<lparr>sk_out := sk_out sk1 @ hex_dump (take (unat sz) data)\<rparr>))"
    using hex_rows_dump [of sz data sk1 0] assms vdbg_sink_broken [OF assms(1)]
    by (simp add: vdbg_hex_def hex_dump_def min_absorb2)
  then show ?thesis using unhex_hex_dump by blast
qed

theorem vdbg_hex_roundtrip_witness:
  "\<exists>rows. vdbg_hex \<lparr>env_pid = 100, env_tid = 101, env_clock = Some (7, 250000000), env_has_gettid = True\<rparr>
     ''%f:%l: '' ''dbg.c'' ''main'' 42 [1, 0xab, 3] 3 (Some ''hi'') \<lparr>sk_out = [], sk_broken = False\<rparr> =
     Some (Inr (0, \<lparr>sk_out = ''main:42: hi'' # rows, sk_broken = False\<rparr>)) \<and>
   concat (map unhex_row rows) = [1, 0xab, 3]"
  using vdbg_hex_roundtrip [OF vdbg_main_run, of 3 "[1, 0xab, 3]"] by simp

text \<open>
  C22: the byte index \<open>i * N_ROW_ITEMS + j\<close> is an \<open>unsigned\<close> product: for a buffer of
  \<open>2^32\<close> bytes or more (and fewer than \<open>2^36 - 15\<close>, so the row loop ends) row \<open>r\<close> prints
  the 16 bytes at offset \<open>16 r mod 2^32\<close>: from row \<open>2^28\<close> on the dump repeats the start
  of the buffer, and the bytes from offset \<open>2^32\<close> on are never printed.
\<close>

theorem vdbg_hex_offset_wrap:
  assumes "vdbg env hdr fname func lineno msg sk = Inr (rc, sk1)" and "\<not> sk_broken sk"
    and "2 ^ 32 \<le> unat sz" and "unat sz \<le> length data" and "unat sz + 15 < 2 ^ 36"
  shows "vdbg_hex env hdr fname func lineno data sz msg sk =
    Some (Inr (0, sk1\<lparr>sk_out := sk_out sk1 @
      map (\<lambda>r. hex_line r (take 16 (drop (16 * r mod 2 ^ 32) data)) @ EOL) [0..<(unat sz + 15) div 16]\<rparr>))"
  using hex_rows_wrap_dump [OF assms(3-5), of sk1 0] assms(1,2) vdbg_sink_broken [OF assms(1)]
  by (simp add: vdbg_hex_def)

theorem vdbg_hex_offset_wrap_witness:
  "vdbg_hex \<lparr>env_pid = 100, env_tid = 101, env_clock = Some (7, 250000000), env_has_gettid = True\<rparr>
     ''%f:%l: '' ''dbg.c'' ''main'' 42 (replicate (2 ^ 32 + 16) 0) (2 ^ 32 + 16) (Some ''hi'')
     \<lparr>sk_out = [], sk_broken = False\<rparr> =
   Some (Inr (0, \<lparr>sk_out = ''main:42: hi'' #
     map (\<lambda>r. hex_line r (take 16 (drop (16 * r mod 2 ^ 32) (replicate (2 ^ 32 + 16) 0))) @ EOL)
       [0..<(2 ^ 32 + 16 + 15) div 16], sk_broken = False\<rparr>))"
  using vdbg_hex_offset_wrap [OF vdbg_main_run, of "2 ^ 32 + 16" "replicate (2 ^ 32 + 16) 0"] by simp

end
