(* ===== verification/Dbg_Iov.thy ===== *)
theory Dbg_Iov
  imports Dbg_Hex
begin

text \<open>
  The scattered hexadecimal dumper, \<open>__vdbg_hex_iov\<close> of \<^verbatim>\<open>src/dbg.c\<close> (lines 240--294):
  a caption through \<open>__vdbg\<close>, then one pass over the bytes of all segments with a single
  running byte offset \<open>i\<close>, a row prefix at every multiple of 16 and a \<open>printf\<close> of
  \<open>out_buf\<close> after every 16th byte.  Both loops count with 32-bit \<open>unsigned\<close> variables
  against \<open>size_t\<close> bounds, so they are \<^theory_text>\<open>partial_function (option)\<close>.  The
  specification \<open>iov_dump\<close> renders the logical stream; the lemmas show the byte step keeps
  the invariant \<open>iov_inv\<close>, then that the loops print exactly the full rows of the stream
  and return 3 after any byte: the final partial row is never printed.
\<close>

section \<open>The code\<close>

text \<open>\<open>struct iovec\<close> of \<open><sys/uio.h>\<close>: the bytes at \<open>iov_base\<close> and the \<open>size_t\<close> length.\<close>

record iovec =
  iov_base :: "u8 list"
  iov_len :: u64

text \<open>
  The local variables of \<open>__vdbg_hex_iov\<close> (lines 244--252) that the byte loop updates, and
  the output stream.
\<close>

record iov_state =
  is_buf :: cbuf
  is_p :: nat
  is_remaining :: u64
  is_i :: u32
  is_sep :: string
  is_rc :: int
  is_sink :: sink

text \<open>
  A step either ends in undefined behaviour (\<open>Inl\<close>), returns early from the function with
  its return value (\<open>Inr (Inl (rc, sk))\<close>), or continues with a new state.
\<close>

type_synonym 'a iov_res = "ub + ((int \<times> sink) + 'a)"

definition ret_bind :: "'a iov_res \<Rightarrow> ('a \<Rightarrow> 'b iov_res) \<Rightarrow> 'b iov_res" where
  "ret_bind r f = ub_bind r (\<lambda>x. case x of Inl ret \<Rightarrow> Inr (Inl ret) | Inr a \<Rightarrow> f a)"

text \<open>
  \<open>rc = snprintf(p, remaining, ...); if (rc < 0) return rc; p += rc; remaining -= rc;\<close>
  (lines 267--271 and 274--278).
\<close>

definition iov_put :: "string \<Rightarrow> iov_state \<Rightarrow> iov_state iov_res" where
  "iov_put str s =
     ub_bind (snprintf (is_buf s) (is_p s) (unat (is_remaining s)) str) (\<lambda>(rc, b).
       if rc < 0 then Inr (Inl (rc, is_sink s))
       else Inr (Inr (s\<lparr>is_buf := b, is_rc := rc, is_p := is_p s + nat rc,
                        is_remaining := is_remaining s - word_of_int rc\<rparr>)))"

text \<open>
  The body of the byte loop after the byte \<open>c\<close> is read (lines 266--287): the row prefix
  \<open>"%02x:"\<close> of the byte offset \<open>i\<close> at a row start, the byte with its separator, \<open>i++\<close>,
  the row written when \<open>i\<close> reaches a multiple of 16 (its \<open>printf\<close> result ignored),
  \<open>sep = " "\<close>.
\<close>

definition iov_byte :: "u8 \<Rightarrow> iov_state \<Rightarrow> iov_state iov_res" where
  "iov_byte c s =
     ret_bind (if is_i s mod N_ROW_ITEMS = 0 then iov_put (fmt_02x (unat (is_i s)) @ '':'') s else Inr (Inr s)) (\<lambda>s1.
       ret_bind (iov_put (is_sep s1 @ fmt_02x (unat c)) s1) (\<lambda>s2.
         let s3 = s2\<lparr>is_i := is_i s2 + 1\<rparr> in
         if is_i s3 mod N_ROW_ITEMS = 0 then
           ub_bind (c_str (is_buf s3)) (\<lambda>out.
             Inr (Inr (s3\<lparr>is_sink := snd (printf_s (is_sink s3) (out @ EOL)),
                         is_p := 0, is_remaining := 256, is_sep := '' ''\<rparr>)))
         else Inr (Inr (s3\<lparr>is_sep := '' ''\<rparr>))))"

text \<open>
  The byte loop of lines 263--288 over one segment: a 32-bit \<open>k\<close> against the \<open>size_t\<close>
  \<open>iov_len\<close>, so it may run for ever.
\<close>

partial_function (option) iov_bytes :: "iovec \<Rightarrow> u32 \<Rightarrow> iov_state \<Rightarrow> iov_state iov_res option" where
  "iov_bytes v k s =
     (if ucast k < iov_len v then
        (case byte_at (iov_base v) (unat k) of
           Inl e \<Rightarrow> Some (Inl e)
         | Inr c \<Rightarrow>
             (case iov_byte c s of
                Inl e \<Rightarrow> Some (Inl e)
              | Inr (Inl ret) \<Rightarrow> Some (Inr (Inl ret))
              | Inr (Inr s') \<Rightarrow> iov_bytes v (k + 1) s'))
      else Some (Inr (Inr s)))"

text \<open>\<open>vec[j]\<close>: the caller's array of \<open>iovcnt\<close> segments is the list \<open>vec\<close>.\<close>

definition seg_at :: "iovec list \<Rightarrow> nat \<Rightarrow> ub + iovec" where
  "seg_at vec j = (if j < length vec then Inr (vec ! j) else Inl Read_oob)"

text \<open>The segment loop of lines 262--291: after each segment, \<open>sep = "*"\<close>.\<close>

partial_function (option) iov_segs :: "iovec list \<Rightarrow> u64 \<Rightarrow> u32 \<Rightarrow> iov_state \<Rightarrow> iov_state iov_res option" where
  "iov_segs vec iovcnt j s =
     (if ucast j < iovcnt then
        (case seg_at vec (unat j) of
           Inl e \<Rightarrow> Some (Inl e)
         | Inr v \<Rightarrow>
             Option.bind (iov_bytes v 0 s) (\<lambda>r.
               case r of
                 Inl e \<Rightarrow> Some (Inl e)
               | Inr (Inl ret) \<Rightarrow> Some (Inr (Inl ret))
               | Inr (Inr s') \<Rightarrow> iov_segs vec iovcnt (j + 1) (s'\<lparr>is_sep := ''*''\<rparr>)))
      else Some (Inr (Inr s)))"

text \<open>The initialisation of lines 256--260.\<close>

definition iov_init :: "sink \<Rightarrow> iov_state" where
  "iov_init sk = \<lparr>is_buf = replicate 256 None, is_p = 0, is_remaining = 256, is_i = 0, is_sep = '' '',
                  is_rc = 0, is_sink = sk\<rparr>"

text \<open>
  \<open>__vdbg_hex_iov\<close>: its definition names its second and third parameters \<open>func, file\<close>
  (line 240, the reverse of the prototype in dbg.h) and passes them to \<open>__vdbg\<close> as
  \<open>file, func\<close>; the caption's result is discarded; the function returns the last \<open>rc\<close>.
\<close>

definition vdbg_hex_iov ::
  "dbg_env \<Rightarrow> string \<Rightarrow> string \<Rightarrow> string \<Rightarrow> u32 \<Rightarrow> iovec list \<Rightarrow> u64 \<Rightarrow> string option \<Rightarrow> sink \<Rightarrow>
   (ub + (int \<times> sink)) option"
where
  "vdbg_hex_iov env hdr func file lineno vec iovcnt msg sk =
     (case vdbg env hdr file func lineno msg sk of
        Inl e \<Rightarrow> Some (Inl e)
      | Inr (rc0, sk1) \<Rightarrow>
          Option.bind (iov_segs vec iovcnt 0 (iov_init sk1)) (\<lambda>r.
            case r of
              Inl e \<Rightarrow> Some (Inl e)
            | Inr (Inl ret) \<Rightarrow> Some (Inr ret)
            | Inr (Inr s) \<Rightarrow> Some (Inr (is_rc s, is_sink s))))"

section \<open>The specification of a scattered dump\<close>

text \<open>
  The logical byte stream with the separator each byte is printed with: a space, except
  \<open>*\<close> for the first byte after a segment boundary (\<open>sep\<close> is the separator pending at
  the start).
\<close>

fun seg_marks :: "string \<Rightarrow> u8 list \<Rightarrow> (string \<times> u8) list" where
  "seg_marks sep [] = []"
| "seg_marks sep (x # xs) = (sep, x) # seg_marks '' '' xs"

primrec iov_marks :: "string \<Rightarrow> u8 list list \<Rightarrow> (string \<times> u8) list" where
  "iov_marks sep [] = []"
| "iov_marks sep (xs # xss) = seg_marks sep xs @ iov_marks ''*'' xss"

text \<open>The bytes of a segment the loop reads: \<open>iov_len\<close> of them.\<close>

definition seg_data :: "iovec \<Rightarrow> u8 list" where
  "seg_data v = take (unat (iov_len v)) (iov_base v)"

definition item_text :: "string \<times> u8 \<Rightarrow> string" where
  "item_text it = fst it @ fmt_02x (unat (snd it))"

text \<open>A row: the byte offset of its first byte, a colon, the separated bytes.\<close>

definition iov_row :: "nat \<Rightarrow> (string \<times> u8) list \<Rightarrow> string" where
  "iov_row n its = fmt_02x n @ '':'' @ concat (map item_text its)"

text \<open>The rows printed for a stream: the full rows of 16 bytes only.\<close>

definition iov_dump :: "(string \<times> u8) list \<Rightarrow> string list" where
  "iov_dump its = map (\<lambda>r. iov_row (16 * r) (take 16 (drop (16 * r) its)) @ EOL) [0..<length its div 16]"

text \<open>
  The output stream after a \<open>printf\<close> of each row, its result ignored: a stream in error
  takes nothing.
\<close>

definition sink_rows :: "sink \<Rightarrow> string list \<Rightarrow> sink" where
  "sink_rows sk rows = (if sk_broken sk then sk else sk\<lparr>sk_out := sk_out sk @ rows\<rparr>)"

section \<open>The invariant of the byte loop\<close>

text \<open>The text of the row being built, held in \<open>out_buf\<close> between rows.\<close>

definition iov_ptext :: "(string \<times> u8) list \<Rightarrow> string" where
  "iov_ptext its = (if length its mod 16 = 0 then [] else iov_row (16 * (length its div 16)) (drop (16 * (length its div 16)) its))"

definition good_seps :: "(string \<times> u8) list \<Rightarrow> bool" where
  "good_seps its \<longleftrightarrow> (\<forall>it \<in> set its. fst it = '' '' \<or> fst it = ''*'')"

text \<open>
  \<open>iov_inv sk0 its s\<close>: after the stream items \<open>its\<close>, \<open>i\<close> counts them, the stream
  holds the full rows, \<open>rc\<close> is 0 before the first byte and 3 (a separator and two
  digits) after, and \<open>out_buf\<close> holds the open row up to \<open>p\<close>, terminated.
\<close>

definition iov_inv :: "sink \<Rightarrow> (string \<times> u8) list \<Rightarrow> iov_state \<Rightarrow> bool" where
  "iov_inv sk0 its s \<longleftrightarrow>
     length its < 2 ^ 32 \<and> good_seps its \<and> is_i s = of_nat (length its) \<and>
     is_sink s = sink_rows sk0 (iov_dump its) \<and> is_rc s = (if its = [] then 0 else 3) \<and>
     length (is_buf s) = 256 \<and> is_p s = length (iov_ptext its) \<and> is_p s + unat (is_remaining s) = 256 \<and>
     buf_exact (iov_ptext its) (is_p s) (is_buf s) \<and>
     (length its mod 16 \<noteq> 0 \<longrightarrow> is_buf s ! is_p s = Some NUL)"

text \<open>
  \<open>iov_ok s\<close>: the weaker invariant that holds for every byte offset, wrapped or not:
  the open row has at most \<open>9 + 3 (i mod 16)\<close> characters, all written and none a
  terminator, and is terminated once a row has begun.
\<close>

definition iov_ok :: "iov_state \<Rightarrow> bool" where
  "iov_ok s \<longleftrightarrow>
     length (is_buf s) = 256 \<and> is_p s + unat (is_remaining s) = 256 \<and>
     is_p s \<le> 9 + 3 * (unat (is_i s) mod 16) \<and> (unat (is_i s) mod 16 = 0 \<longrightarrow> is_p s = 0) \<and>
     (\<forall>j < is_p s. is_buf s ! j \<noteq> None \<and> is_buf s ! j \<noteq> Some NUL) \<and>
     (unat (is_i s) mod 16 \<noteq> 0 \<longrightarrow> is_buf s ! is_p s = Some NUL) \<and>
     (is_sep s = '' '' \<or> is_sep s = ''*'')"

declare seg_at_def [dbg_eval] iov_init_def [dbg_eval] iov_put_def [dbg_eval] iov_byte_def [dbg_eval]
  ret_bind_def [dbg_eval] seg_data_def [dbg_eval] item_text_def [dbg_eval] iov_row_def [dbg_eval]
  iov_dump_def [dbg_eval]

section \<open>Unfolding the loops\<close>

lemma iov_bytes_stop [dbg_eval]:
  "\<not> ucast k < iov_len v \<Longrightarrow> iov_bytes v k s = Some (Inr (Inr s))"
  by (simp add: iov_bytes.simps)

lemma iov_bytes_go [dbg_eval]:
  "ucast k < iov_len v \<Longrightarrow> iov_bytes v k s =
        (case byte_at (iov_base v) (unat k) of
           Inl e \<Rightarrow> Some (Inl e)
         | Inr c \<Rightarrow>
             (case iov_byte c s of
                Inl e \<Rightarrow> Some (Inl e)
              | Inr (Inl ret) \<Rightarrow> Some (Inr (Inl ret))
              | Inr (Inr s') \<Rightarrow> iov_bytes v (k + 1) s'))"
  by (subst iov_bytes.simps) simp

lemma iov_segs_stop [dbg_eval]:
  "\<not> ucast j < iovcnt \<Longrightarrow> iov_segs vec iovcnt j s = Some (Inr (Inr s))"
  by (simp add: iov_segs.simps)

lemma iov_segs_go [dbg_eval]:
  "ucast j < iovcnt \<Longrightarrow> iov_segs vec iovcnt j s =
        (case seg_at vec (unat j) of
           Inl e \<Rightarrow> Some (Inl e)
         | Inr v \<Rightarrow>
             Option.bind (iov_bytes v 0 s) (\<lambda>r.
               case r of
                 Inl e \<Rightarrow> Some (Inl e)
               | Inr (Inl ret) \<Rightarrow> Some (Inr (Inl ret))
               | Inr (Inr s') \<Rightarrow> iov_segs vec iovcnt (j + 1) (s'\<lparr>is_sep := ''*''\<rparr>)))"
  by (subst iov_segs.simps) simp

lemma ret_bind_simps [simp]:
  "ret_bind (Inl e) f = Inl e" "ret_bind (Inr (Inl r)) f = Inr (Inl r)" "ret_bind (Inr (Inr a)) f = f a"
  by (simp_all add: ret_bind_def)

section \<open>Rows of the stream\<close>

lemma item_text_length: "fst it = '' '' \<or> fst it = ''*'' \<Longrightarrow> length (item_text it) = 3"
  by (auto simp: item_text_def)

lemma concat_items_length:
  "good_seps its \<Longrightarrow> length (concat (map item_text its)) = 3 * length its"
  by (induction its) (auto simp: good_seps_def item_text_length)

lemma iov_ptext_start:
  assumes "length its mod 16 = 0"
  shows "iov_ptext (its @ [it]) = fmt_02x (length its) @ '':'' @ item_text it"
proof -
  have d: "Suc (length its) div 16 = length its div 16" and m: "Suc (length its) mod 16 = 1"
    using assms by (simp_all add: div_Suc mod_Suc)
  have q: "16 * (length its div 16) = length its"
    using div_mult_mod_eq [of "length its" 16] assms by simp
  show ?thesis unfolding iov_ptext_def iov_row_def length_append_singleton d m q by simp
qed

lemma iov_ptext_mid:
  assumes "length its mod 16 \<noteq> 0" and "Suc (length its) mod 16 \<noteq> 0"
  shows "iov_ptext (its @ [it]) = iov_ptext its @ item_text it"
proof -
  have "Suc (length its) div 16 = length its div 16"
    using assms(2) by (simp add: div_Suc mod_Suc split: if_splits)
  moreover have "16 * (length its div 16) \<le> length its" by simp
  ultimately show ?thesis using assms by (simp add: iov_ptext_def iov_row_def)
qed

lemma iov_ptext_end:
  "Suc (length its) mod 16 = 0 \<Longrightarrow> iov_ptext (its @ [it]) = []"
  by (simp add: iov_ptext_def)

lemma iov_dump_mid:
  assumes "Suc (length its) mod 16 \<noteq> 0"
  shows "iov_dump (its @ [it]) = iov_dump its"
proof -
  have "Suc (length its) div 16 = length its div 16"
    using assms by (simp add: div_Suc mod_Suc split: if_splits)
  moreover have "take 16 (drop (16 * r) (its @ [it])) = take 16 (drop (16 * r) its)"
    if "r < length its div 16" for r
  proof -
    have "16 * r + 16 \<le> length its" using that div_mult_mod_eq [of "length its" 16] by linarith
    then show ?thesis by simp
  qed
  ultimately show ?thesis by (simp add: iov_dump_def)
qed

lemma iov_dump_end:
  assumes "Suc (length its) mod 16 = 0"
  shows "iov_dump (its @ [it]) = iov_dump its @ [(iov_ptext its @ item_text it) @ EOL]"
proof -
  let ?q = "length its div 16"
  have d: "Suc (length its) div 16 = Suc ?q" and m: "length its mod 16 = 15"
    using assms by (simp_all add: div_Suc mod_Suc split: if_splits)
  have q: "16 * ?q + 15 = length its" using div_mult_mod_eq [of "length its" 16] m by simp
  have rows: "take 16 (drop (16 * r) (its @ [it])) = take 16 (drop (16 * r) its)" if "r < ?q" for r
  proof -
    have "16 * r + 16 \<le> length its" using that q by linarith
    then show ?thesis by simp
  qed
  have last: "take 16 (drop (16 * ?q) (its @ [it])) = drop (16 * ?q) its @ [it]"
    using q by simp
  have "iov_ptext its = iov_row (16 * ?q) (drop (16 * ?q) its)" using m by (simp add: iov_ptext_def)
  with d rows last show ?thesis by (simp add: iov_dump_def iov_row_def)
qed

lemma sink_rows_snoc: "sink_rows sk (rows @ [r]) = snd (printf_s (sink_rows sk rows) r)"
  by (simp add: sink_rows_def printf_s_def)

lemma good_seps_snoc: "good_seps (its @ [(sp, c)]) \<longleftrightarrow> good_seps its \<and> (sp = '' '' \<or> sp = ''*'')"
  by (auto simp: good_seps_def)

lemma iov_ptext_length:
  assumes "length its < 2 ^ 32" and "good_seps its"
  shows "length (iov_ptext its) \<le> 54"
proof (cases "length its mod 16 = 0")
  case False
  let ?q = "length its div 16"
  have "length (drop (16 * ?q) its) = length its mod 16"
    by (simp add: minus_mult_div_eq_mod)
  moreover have "good_seps (drop (16 * ?q) its)"
    using assms(2) by (auto simp: good_seps_def dest: in_set_dropD)
  moreover have "length (fmt_02x (16 * ?q)) \<le> 8"
    using assms(1) by (intro fmt_02x_length_le) linarith
  moreover have "length its mod 16 < 16" by simp
  ultimately show ?thesis using False by (simp add: iov_ptext_def iov_row_def concat_items_length)
qed (simp add: iov_ptext_def)

lemma NUL_notin_iov_ptext:
  "good_seps its \<Longrightarrow> NUL \<notin> set (iov_ptext its)"
  by (auto simp: iov_ptext_def iov_row_def item_text_def good_seps_def dest!: in_set_dropD)

lemma length_seg_marks [simp]: "length (seg_marks sep xs) = length xs"
  by (induction xs arbitrary: sep) auto

lemma length_iov_marks [simp]: "length (iov_marks sep xss) = length (concat xss)"
  by (induction xss arbitrary: sep) auto

lemma length_seg_data: "unat (iov_len v) \<le> length (iov_base v) \<Longrightarrow> length (seg_data v) = unat (iov_len v)"
  by (simp add: seg_data_def)

section \<open>One byte\<close>

lemma iov_put_exact:
  assumes "buf_exact T (is_p s) (is_buf s)" and "is_p s = length T" and "length (is_buf s) = 256"
    and "is_p s + unat (is_remaining s) = 256" and "length T + length str < 256"
  shows "\<exists>s'. iov_put str s = Inr (Inr s') \<and>
           is_p s' = length T + length str \<and> is_p s' + unat (is_remaining s') = 256 \<and>
           buf_exact (T @ str) (is_p s') (is_buf s') \<and> is_buf s' ! is_p s' = Some NUL \<and>
           length (is_buf s') = 256 \<and> is_rc s' = int (length str) \<and>
           is_i s' = is_i s \<and> is_sep s' = is_sep s \<and> is_sink s' = is_sink s"
proof -
  obtain b where snp: "snprintf (is_buf s) (is_p s) (unat (is_remaining s)) str = Inr (int (length str), b)"
    using assms(3,4) by (simp add: snprintf_Inr)
  have fit: "length str < unat (is_remaining s)" using assms(2,4,5) by simp
  from snprintf_exact [OF assms(1,2) _ fit snp] assms(2,3,4)
  have "buf_exact (T @ str) (length T + length str) b" and "b ! (length T + length str) = Some NUL"
    by simp_all
  moreover have "length b = 256" using snp assms(3,4) by (auto simp: snprintf_Inr)
  moreover have "unat (is_remaining s - word_of_int (int (length str))) = unat (is_remaining s) - length str"
    by (rule unat_sub_of_nat) (use fit in simp)
  moreover have "iov_put str s = Inr (Inr (s\<lparr>is_buf := b, is_rc := int (length str), is_p := length T + length str,
                is_remaining := is_remaining s - word_of_int (int (length str))\<rparr>))"
    using snp assms(2) by (simp add: iov_put_def)
  ultimately show ?thesis using assms(2,4) fit by auto
qed

lemma u32_mod_row:
  "n < 2 ^ 32 \<Longrightarrow> ((of_nat n :: u32) mod N_ROW_ITEMS = 0) \<longleftrightarrow> n mod 16 = 0"
proof -
  assume n: "n < 2 ^ 32"
  have "unat ((of_nat n :: u32) mod N_ROW_ITEMS) = n mod 16"
    using n by (simp add: N_ROW_ITEMS_def unat_mod unat_of_nat)
  then show ?thesis by (metis unsigned_eq_0_iff)
qed

lemma iov_byte_open:
  assumes inv: "iov_inv sk0 its s"
  defines "T1 \<equiv> (if length its mod 16 = 0 then fmt_02x (length its) @ '':'' else iov_ptext its)"
  shows "\<exists>s1. (if is_i s mod N_ROW_ITEMS = 0 then iov_put (fmt_02x (unat (is_i s)) @ '':'') s else Inr (Inr s)) =
               Inr (Inr s1) \<and>
           is_p s1 = length T1 \<and> is_p s1 + unat (is_remaining s1) = 256 \<and> buf_exact T1 (is_p s1) (is_buf s1) \<and>
           length (is_buf s1) = 256 \<and> is_i s1 = is_i s \<and> is_sep s1 = is_sep s \<and> is_sink s1 = is_sink s \<and>
           length T1 \<le> 54"
proof -
  from inv have n: "length its < 2 ^ 32" and i: "is_i s = of_nat (length its)" and g: "good_seps its"
    by (simp_all add: iov_inv_def)
  have mod_eq: "is_i s mod N_ROW_ITEMS = 0 \<longleftrightarrow> length its mod 16 = 0"
    using u32_mod_row [OF n] i by simp
  show ?thesis
  proof (cases "length its mod 16 = 0")
    case True
    have ui: "unat (is_i s) = length its" using i n by (simp add: unat_of_nat)
    have T1: "T1 = fmt_02x (length its) @ '':''" using True by (simp add: T1_def)
    have l: "length T1 \<le> 9" using fmt_02x_length_le [OF n] T1 by simp
    have "buf_exact [] (is_p s) (is_buf s)" "is_p s = length []"
      using inv True by (simp_all add: iov_inv_def buf_exact_def iov_ptext_def)
    from iov_put_exact [OF this, of "fmt_02x (length its) @ '':''"] inv l T1
    show ?thesis using True mod_eq ui by (auto simp: iov_inv_def)
  next
    case False
    then have "T1 = iov_ptext its" by (simp add: T1_def)
    with False mod_eq inv iov_ptext_length [OF n g] show ?thesis by (auto simp: iov_inv_def)
  qed
qed

text \<open>Every byte keeps the invariant, adding the byte with its pending separator.\<close>

lemma iov_byte_step:
  assumes inv: "iov_inv sk0 its s" and sep: "is_sep s = '' '' \<or> is_sep s = ''*''"
    and n1: "Suc (length its) < 2 ^ 32"
  shows "\<exists>s'. iov_byte c s = Inr (Inr s') \<and> iov_inv sk0 (its @ [(is_sep s, c)]) s' \<and> is_sep s' = '' ''"
proof -
  define T1 where "T1 = (if length its mod 16 = 0 then fmt_02x (length its) @ '':'' else iov_ptext its)"
  let ?x = "(is_sep s, c)"
  let ?it = "item_text ?x"
  have lit: "length ?it = 3" using sep by (simp add: item_text_length)
  have nit: "NUL \<notin> set ?it" using sep by (auto simp: item_text_def)
  have g: "good_seps (its @ [?x])" using inv sep by (simp add: iov_inv_def good_seps_snoc)
  obtain s1 where o: "(if is_i s mod N_ROW_ITEMS = 0 then iov_put (fmt_02x (unat (is_i s)) @ '':'') s else Inr (Inr s)) =
               Inr (Inr s1)"
    and p1: "is_p s1 = length T1" "is_p s1 + unat (is_remaining s1) = 256" "buf_exact T1 (is_p s1) (is_buf s1)"
       "length (is_buf s1) = 256" and f1: "is_i s1 = is_i s" "is_sep s1 = is_sep s" "is_sink s1 = is_sink s"
    and l1: "length T1 \<le> 54"
    using iov_byte_open [OF inv] unfolding T1_def by blast
  have it: "is_sep s1 @ fmt_02x (unat c) = ?it" using f1 by (simp add: item_text_def)
  obtain s2 where put: "iov_put ?it s1 = Inr (Inr s2)"
    and p2: "is_p s2 = length T1 + length ?it" "is_p s2 + unat (is_remaining s2) = 256"
      "buf_exact (T1 @ ?it) (is_p s2) (is_buf s2)" "is_buf s2 ! is_p s2 = Some NUL" "length (is_buf s2) = 256"
    and f2: "is_rc s2 = 3" "is_i s2 = is_i s" "is_sep s2 = is_sep s" "is_sink s2 = is_sink s"
    using iov_put_exact [OF p1(3,1,4,2), of ?it] l1 lit f1 by auto
  have i: "is_i s = of_nat (length its)" using inv by (simp add: iov_inv_def)
  have i2: "is_i s2 + 1 = of_nat (Suc (length its))" using f2 i by simp
  have m2: "(is_i s2 + 1) mod N_ROW_ITEMS = 0 \<longleftrightarrow> Suc (length its) mod 16 = 0"
    using u32_mod_row [OF n1] i2 by (simp add: add.commute)
  have run: "iov_byte c s =
      (let s3 = s2\<lparr>is_i := is_i s2 + 1\<rparr> in
         if is_i s3 mod N_ROW_ITEMS = 0 then
           ub_bind (c_str (is_buf s3)) (\<lambda>out.
             Inr (Inr (s3\<lparr>is_sink := snd (printf_s (is_sink s3) (out @ EOL)),
                         is_p := 0, is_remaining := 256, is_sep := '' ''\<rparr>)))
         else Inr (Inr (s3\<lparr>is_sep := '' ''\<rparr>)))"
    unfolding iov_byte_def using o put it by simp
  show ?thesis
  proof (cases "Suc (length its) mod 16 = 0")
    case True
    then have "length its mod 16 \<noteq> 0" by (simp add: mod_Suc split: if_splits)
    then have T1: "T1 = iov_ptext its" by (simp add: T1_def)
    have "c_str (is_buf s2) = Inr (takeWhile (\<lambda>ch. ch \<noteq> NUL) (T1 @ ?it))"
      using c_str_exact [of "T1 @ ?it" "is_buf s2"] p2 l1 lit by simp
    also have "takeWhile (\<lambda>ch. ch \<noteq> NUL) (T1 @ ?it) = T1 @ ?it"
      using NUL_notin_iov_ptext [of its] inv nit T1 by (auto simp: iov_inv_def takeWhile_eq_all_conv)
    finally have out: "c_str (is_buf s2) = Inr (T1 @ ?it)" .
    have "iov_inv sk0 (its @ [?x])
            (s2\<lparr>is_i := is_i s2 + 1, is_sink := snd (printf_s (is_sink s2) ((T1 @ ?it) @ EOL)),
                is_p := 0, is_remaining := 256, is_sep := '' ''\<rparr>)"
      using inv g n1 i2 f2 p2 True T1 iov_dump_end [OF True, of ?x] iov_ptext_end [OF True, of ?x]
      by (simp add: iov_inv_def sink_rows_snoc buf_exact_def)
    with run out m2 True show ?thesis by (simp add: Let_def)
  next
    case False
    have "iov_ptext (its @ [?x]) = T1 @ ?it"
      using False iov_ptext_start [of its ?x] iov_ptext_mid [of its ?x] by (simp add: T1_def)
    then have "iov_inv sk0 (its @ [?x]) (s2\<lparr>is_i := is_i s2 + 1, is_sep := '' ''\<rparr>)"
      using inv g n1 i2 f2 p2 False iov_dump_mid [OF False, of ?x]
      by (simp add: iov_inv_def)
    with run m2 False show ?thesis by (simp add: Let_def)
  qed
qed

section \<open>The loops\<close>

lemma iov_bytes_seg:
  assumes "iov_inv sk0 its s" and "is_sep s = '' '' \<or> is_sep s = ''*''"
    and "unat (iov_len v) \<le> length (iov_base v)" and "length its + (unat (iov_len v) - k) < 2 ^ 32"
    and "k \<le> unat (iov_len v)" and "unat (iov_len v) < 2 ^ 32"
  shows "\<exists>s'. iov_bytes v (of_nat k) s = Some (Inr (Inr s')) \<and>
           iov_inv sk0 (its @ seg_marks (is_sep s) (drop k (seg_data v))) s' \<and>
           is_sep s' = (if drop k (seg_data v) = [] then is_sep s else '' '')"
  using assms
proof (induction "unat (iov_len v) - k" arbitrary: k its s)
  case 0
  then have k: "k = unat (iov_len v)" by simp
  have k32: "k < 2 ^ 32" using k 0 by simp
  have "unat (of_nat k :: u32) = k" using k32 by (simp add: unat_of_nat)
  then have "\<not> (ucast (of_nat k :: u32) :: u64) < iov_len v"
    using k by (simp add: word_less_nat_alt)
  with k 0 show ?case by (simp add: iov_bytes_stop seg_data_def)
next
  case (Suc d)
  have k: "k < unat (iov_len v)" using Suc.hyps by simp
  have k32: "k < 2 ^ 32" using Suc.prems(6) k by linarith
  have uk: "unat (of_nat k :: u32) = k" using k32 by (simp add: unat_of_nat)
  have cond: "(ucast (of_nat k :: u32) :: u64) < iov_len v" using uk k by (simp add: word_less_nat_alt)
  let ?x = "iov_base v ! k"
  have rd: "byte_at (iov_base v) (unat (of_nat k :: u32)) = Inr ?x"
    using uk k Suc.prems(3) by (simp add: byte_at_def)
  have dk: "drop k (seg_data v) = ?x # drop (Suc k) (seg_data v)"
    unfolding seg_data_def using k Suc.prems(3) by (intro drop_eq_nth_Cons) simp_all
  obtain s1 where st: "iov_byte ?x s = Inr (Inr s1)" and inv1: "iov_inv sk0 (its @ [(is_sep s, ?x)]) s1"
    and sep1: "is_sep s1 = '' ''"
  proof -
    have "Suc (length its) < 2 ^ 32" using Suc.prems(4) k by linarith
    from iov_byte_step [OF Suc.prems(1,2) this, of ?x] that show ?thesis by blast
  qed
  have d: "d = unat (iov_len v) - Suc k" using Suc.hyps(2) by simp
  have b: "length (its @ [(is_sep s, ?x)]) + (unat (iov_len v) - Suc k) < 2 ^ 32"
    using Suc.prems(4) k by simp
  have sp: "is_sep s1 = '' '' \<or> is_sep s1 = ''*''" using sep1 by simp
  from Suc.hyps(1) [OF d inv1 sp Suc.prems(3) b _ Suc.prems(6)] k sep1
  have "\<exists>s'. iov_bytes v (of_nat (Suc k)) s1 = Some (Inr (Inr s')) \<and>
           iov_inv sk0 ((its @ [(is_sep s, ?x)]) @ seg_marks '' '' (drop (Suc k) (seg_data v))) s' \<and>
           is_sep s' = '' ''"
    by auto
  then show ?case
    using cond rd st dk sep1 by (simp add: iov_bytes_go add.commute)
qed

lemma iov_inv_sep [simp]: "iov_inv sk0 its (s\<lparr>is_sep := x\<rparr>) = iov_inv sk0 its s"
  by (simp add: iov_inv_def)

lemma iov_segs_all:
  assumes "iov_inv sk0 its s" and "is_sep s = '' '' \<or> is_sep s = ''*''"
    and "unat cnt \<le> length vec" and "\<forall>v \<in> set (take (unat cnt) vec). unat (iov_len v) \<le> length (iov_base v)"
    and "length its + length (concat (map seg_data (drop j (take (unat cnt) vec)))) < 2 ^ 32"
    and "j \<le> unat cnt" and "unat cnt < 2 ^ 32"
  shows "\<exists>s'. iov_segs vec cnt (of_nat j) s = Some (Inr (Inr s')) \<and>
           iov_inv sk0 (its @ iov_marks (is_sep s) (map seg_data (drop j (take (unat cnt) vec)))) s'"
  using assms
proof (induction "unat cnt - j" arbitrary: j its s)
  case 0
  then have j: "j = unat cnt" by simp
  have j32: "j < 2 ^ 32" using j 0 by simp
  have "unat (of_nat j :: u32) = j" using j32 by (simp add: unat_of_nat)
  then have "\<not> (ucast (of_nat j :: u32) :: u64) < cnt" using j by (simp add: word_less_nat_alt)
  with j 0 show ?case by (simp add: iov_segs_stop)
next
  case (Suc d)
  have j: "j < unat cnt" using Suc.hyps by simp
  have uj: "unat (of_nat j :: u32) = j" using j Suc.prems(7) by (simp add: unat_of_nat)
  have cond: "(ucast (of_nat j :: u32) :: u64) < cnt" using uj j by (simp add: word_less_nat_alt)
  let ?v = "vec ! j"
  have sa: "seg_at vec (unat (of_nat j :: u32)) = Inr ?v" using uj j Suc.prems(3) by (simp add: seg_at_def)
  have dj: "drop j (take (unat cnt) vec) = ?v # drop (Suc j) (take (unat cnt) vec)"
    using j Suc.prems(3) by (intro drop_eq_nth_Cons) simp_all
  have vin: "?v \<in> set (take (unat cnt) vec)" using dj by (metis in_set_dropD list.set_intros(1))
  have lv: "unat (iov_len ?v) \<le> length (iov_base ?v)" using Suc.prems(4) vin by blast
  have tot: "length its + unat (iov_len ?v) + length (concat (map seg_data (drop (Suc j) (take (unat cnt) vec)))) < 2 ^ 32"
    using Suc.prems(5) dj length_seg_data [OF lv] by simp
  obtain s1 where seg: "iov_bytes ?v (of_nat 0) s = Some (Inr (Inr s1))"
    and inv1: "iov_inv sk0 (its @ seg_marks (is_sep s) (drop 0 (seg_data ?v))) s1"
    using iov_bytes_seg [OF Suc.prems(1,2) lv, of 0] tot by auto
  have d: "d = unat cnt - Suc j" using Suc.hyps(2) by simp
  have inv1': "iov_inv sk0 (its @ seg_marks (is_sep s) (seg_data ?v)) (s1\<lparr>is_sep := ''*''\<rparr>)"
    using inv1 by simp
  have b: "length (its @ seg_marks (is_sep s) (seg_data ?v)) +
           length (concat (map seg_data (drop (Suc j) (take (unat cnt) vec)))) < 2 ^ 32"
    using tot length_seg_data [OF lv] by simp
  from Suc.hyps(1) [OF d inv1' _ Suc.prems(3,4) b _ Suc.prems(7)] j
  obtain s' where "iov_segs vec cnt (of_nat (Suc j)) (s1\<lparr>is_sep := ''*''\<rparr>) = Some (Inr (Inr s'))"
    and "iov_inv sk0 ((its @ seg_marks (is_sep s) (seg_data ?v)) @
            iov_marks ''*'' (map seg_data (drop (Suc j) (take (unat cnt) vec)))) s'"
    by auto
  then show ?case
    using cond sa seg dj by (simp add: iov_segs_go add.commute)
qed

lemma iov_inv_init: "iov_inv sk0 [] (iov_init sk0)"
  by (simp add: iov_init_def iov_inv_def iov_ptext_def iov_dump_def good_seps_def buf_exact_def sink_rows_def)

lemma iov_segs_run:
  assumes "unat cnt \<le> length vec" and "\<forall>v \<in> set (take (unat cnt) vec). unat (iov_len v) \<le> length (iov_base v)"
    and "length (concat (map seg_data (take (unat cnt) vec))) < 2 ^ 32" and "unat cnt < 2 ^ 32"
  shows "\<exists>s'. iov_segs vec cnt 0 (iov_init sk1) = Some (Inr (Inr s')) \<and>
     is_rc s' = (if concat (map seg_data (take (unat cnt) vec)) = [] then 0 else 3) \<and>
     is_sink s' = sink_rows sk1 (iov_dump (iov_marks '' '' (map seg_data (take (unat cnt) vec))))"
proof -
  have "iov_inv sk1 [] (iov_init sk1)" and "is_sep (iov_init sk1) = '' ''"
    using iov_inv_init by (simp_all add: iov_init_def)
  from iov_segs_all [OF this(1) _ assms(1,2), of 0] assms(3,4) this(2)
  obtain s' where run: "iov_segs vec cnt 0 (iov_init sk1) = Some (Inr (Inr s'))"
    and inv: "iov_inv sk1 (iov_marks '' '' (map seg_data (take (unat cnt) vec))) s'"
    by auto
  have "iov_marks '' '' (map seg_data (take (unat cnt) vec)) = [] \<longleftrightarrow> concat (map seg_data (take (unat cnt) vec)) = []"
    by (metis length_iov_marks length_0_conv)
  with inv run show ?thesis by (auto simp: iov_inv_def)
qed

lemma vdbg_swapped_run:
  "vdbg \<lparr>env_pid = 100, env_tid = 101, env_clock = Some (7, 250000000), env_has_gettid = True\<rparr>
     ''%f:%l: '' ''main'' ''dbg.c'' 42 (Some ''hi'') \<lparr>sk_out = [], sk_broken = False\<rparr> =
   Inr (12, \<lparr>sk_out = [''dbg.c:42: hi''], sk_broken = False\<rparr>)"
  by (simp add: dbg_eval vdbg_loop.simps)

section \<open>Non-termination for long segments\<close>

lemma u32_row_start: "(x :: u32) mod N_ROW_ITEMS = 0 \<longleftrightarrow> unat x mod 16 = 0"
proof -
  have "unat (x mod N_ROW_ITEMS) = unat x mod 16" by (simp add: N_ROW_ITEMS_def unat_mod)
  then show ?thesis by (metis unsigned_eq_0_iff)
qed

lemma iov_put_ok:
  assumes "\<forall>j < is_p s. is_buf s ! j \<noteq> None \<and> is_buf s ! j \<noteq> Some NUL" and "length (is_buf s) = 256"
    and "is_p s + unat (is_remaining s) = 256" and "is_p s + length str < 256" and "NUL \<notin> set str"
  shows "\<exists>s'. iov_put str s = Inr (Inr s') \<and> is_p s' = is_p s + length str \<and>
           is_p s' + unat (is_remaining s') = 256 \<and> length (is_buf s') = 256 \<and>
           (\<forall>j < is_p s'. is_buf s' ! j \<noteq> None \<and> is_buf s' ! j \<noteq> Some NUL) \<and>
           is_buf s' ! is_p s' = Some NUL \<and> is_i s' = is_i s \<and> is_sep s' = is_sep s"
proof -
  define T where "T = map the (take (is_p s) (is_buf s))"
  have lT: "length T = is_p s" using assms(2,3) by (simp add: T_def)
  have cells: "is_buf s ! j = Some (T ! j) \<and> T ! j \<noteq> NUL" if "j < is_p s" for j
    using assms(1) [rule_format, OF that] that lT by (cases "is_buf s ! j") (auto simp: T_def)
  have ex: "buf_exact T (is_p s) (is_buf s)" using cells by (simp add: buf_exact_def)
  have nT: "NUL \<notin> set T" using cells lT by (auto simp: in_set_conv_nth)
  from iov_put_exact [OF ex lT [symmetric] assms(2,3), of str] assms(4) lT
  obtain s' where put: "iov_put str s = Inr (Inr s')" and p': "is_p s' = is_p s + length str"
    and "is_p s' + unat (is_remaining s') = 256" and ex': "buf_exact (T @ str) (is_p s') (is_buf s')"
    and "is_buf s' ! is_p s' = Some NUL" and "length (is_buf s') = 256"
    and "is_i s' = is_i s" and "is_sep s' = is_sep s"
    by auto
  moreover have "\<forall>j < is_p s'. is_buf s' ! j \<noteq> None \<and> is_buf s' ! j \<noteq> Some NUL"
  proof (intro allI impI)
    fix j assume j: "j < is_p s'"
    then have "(T @ str) ! j \<in> set (T @ str)" using p' lT by (intro nth_mem) simp
    with ex' j nT assms(5) show "is_buf s' ! j \<noteq> None \<and> is_buf s' ! j \<noteq> Some NUL"
      by (auto simp: buf_exact_def)
  qed
  ultimately show ?thesis using p' by blast
qed

text \<open>Every byte keeps the weaker invariant, whatever the byte offset.\<close>

lemma iov_byte_ok:
  assumes ok: "iov_ok s"
  shows "\<exists>s'. iov_byte c s = Inr (Inr s') \<and> iov_ok s'"
proof -
  let ?k = "unat (is_i s) mod 16"
  have sep: "is_sep s = '' '' \<or> is_sep s = ''*''" using ok by (simp add: iov_ok_def)
  obtain s1 where o: "(if is_i s mod N_ROW_ITEMS = 0 then iov_put (fmt_02x (unat (is_i s)) @ '':'') s else Inr (Inr s)) =
               Inr (Inr s1)"
    and c1: "\<forall>j < is_p s1. is_buf s1 ! j \<noteq> None \<and> is_buf s1 ! j \<noteq> Some NUL"
    and l1: "length (is_buf s1) = 256" "is_p s1 + unat (is_remaining s1) = 256" "is_p s1 \<le> 9 + 3 * ?k"
    and f1: "is_i s1 = is_i s" "is_sep s1 = is_sep s"
  proof (cases "?k = 0")
    case True
    have l: "length (fmt_02x (unat (is_i s)) @ '':'') \<le> 9" using fmt_02x_u32_length [of "is_i s"] by simp
    have pre: "\<forall>j < is_p s. is_buf s ! j \<noteq> None \<and> is_buf s ! j \<noteq> Some NUL" "length (is_buf s) = 256"
      "is_p s + unat (is_remaining s) = 256" "is_p s + length (fmt_02x (unat (is_i s)) @ '':'') < 256"
      "NUL \<notin> set (fmt_02x (unat (is_i s)) @ '':'')"
      using ok True l by (auto simp: iov_ok_def)
    have p0: "is_p s = 0" using ok True by (simp add: iov_ok_def)
    from iov_put_ok [OF pre]
    obtain s' where "iov_put (fmt_02x (unat (is_i s)) @ '':'') s = Inr (Inr s')"
      and "is_p s' = is_p s + length (fmt_02x (unat (is_i s)) @ '':'')"
      and "is_p s' + unat (is_remaining s') = 256" and "length (is_buf s') = 256"
      and "\<forall>j < is_p s'. is_buf s' ! j \<noteq> None \<and> is_buf s' ! j \<noteq> Some NUL"
      and "is_i s' = is_i s" and "is_sep s' = is_sep s"
      by blast
    note s' = this
    have m0: "is_i s mod N_ROW_ITEMS = 0" using True by (simp add: u32_row_start)
    show ?thesis by (rule that [of s']) (use s' m0 p0 l True in simp_all)
  next
    case False
    have nm: "\<not> is_i s mod N_ROW_ITEMS = 0" using False by (simp add: u32_row_start)
    show ?thesis by (rule that [of s]) (use ok nm in \<open>simp_all add: iov_ok_def\<close>)
  qed
  let ?it = "is_sep s1 @ fmt_02x (unat c)"
  have "is_p s1 + length ?it < 256" "NUL \<notin> set ?it" using l1 f1 sep by auto
  from iov_put_ok [OF c1 l1(1,2) this]
  obtain s2 where put: "iov_put ?it s1 = Inr (Inr s2)" and p2': "is_p s2 = is_p s1 + length ?it"
    and l2: "is_p s2 + unat (is_remaining s2) = 256" "length (is_buf s2) = 256"
    and c2: "\<forall>j < is_p s2. is_buf s2 ! j \<noteq> None \<and> is_buf s2 ! j \<noteq> Some NUL"
    and n2: "is_buf s2 ! is_p s2 = Some NUL" and f2': "is_i s2 = is_i s1" "is_sep s2 = is_sep s1"
    by blast
  have p2: "is_p s2 = is_p s1 + 3" using p2' f1 sep by auto
  have f2: "is_i s2 = is_i s" "is_sep s2 = is_sep s" using f1 f2' by simp_all
  have run: "iov_byte c s =
      (let s3 = s2\<lparr>is_i := is_i s2 + 1\<rparr> in
         if is_i s3 mod N_ROW_ITEMS = 0 then
           ub_bind (c_str (is_buf s3)) (\<lambda>out.
             Inr (Inr (s3\<lparr>is_sink := snd (printf_s (is_sink s3) (out @ EOL)),
                         is_p := 0, is_remaining := 256, is_sep := '' ''\<rparr>)))
         else Inr (Inr (s3\<lparr>is_sep := '' ''\<rparr>)))"
    unfolding iov_byte_def using o put by simp
  have k': "unat (is_i s2 + 1) mod 16 = Suc ?k mod 16" using f2 by (simp add: unat_u32_succ_mod16)
  show ?thesis
  proof (cases "Suc ?k mod 16 = 0")
    case True
    have "?k < 16" by simp
    then have "is_p s2 < length (is_buf s2)" using l1(3) l2(2) p2 by linarith
    then obtain out where "c_str (is_buf s2) = Inr out" using c_str_some [OF c2 _ n2] by blast
    with run True k' l2 show ?thesis by (simp add: Let_def u32_row_start iov_ok_def)
  next
    case False
    then have "Suc ?k mod 16 = Suc ?k" by (simp add: mod_Suc split: if_splits)
    with run False k' p2 l1 l2 c2 n2 show ?thesis by (simp add: Let_def u32_row_start iov_ok_def)
  qed
qed

lemma iov_ok_init: "iov_ok (iov_init sk)"
  by (simp add: iov_ok_def iov_init_def)

text \<open>A segment of \<open>2^32\<close> bytes or more: \<open>k\<close> wraps before reaching \<open>iov_len\<close>.\<close>

lemma iov_bytes_diverges:
  assumes len: "2 ^ 32 \<le> unat (iov_len v)" and base: "unat (iov_len v) \<le> length (iov_base v)"
    and ok: "iov_ok s"
  shows "iov_bytes v k s = None"
proof -
  have cond: "(ucast j :: u64) < iov_len v" for j :: u32
    using unat_u32_less [of j] len by (simp add: word_less_nat_alt)
  have rd: "byte_at (iov_base v) (unat j) = Inr (iov_base v ! unat j)" for j :: u32
    using unat_u32_less [of j] len base by (simp add: byte_at_def)
  have "\<forall>k s y. iov_bytes v k s = Some y \<longrightarrow> \<not> iov_ok s"
    apply (rule iov_bytes.fixp_induct [where P = "\<lambda>f. \<forall>k s y. f v k s = Some y \<longrightarrow> \<not> iov_ok s"])
    subgoal
    proof -
      have eq: "(\<lambda>g. \<forall>k s y. curry (curry g) v k s = Some y \<longrightarrow> \<not> iov_ok s) =
            (\<lambda>g. \<forall>x y. g x = Some y \<longrightarrow> (fst (fst x) = v \<longrightarrow> \<not> iov_ok (snd x)))"
        by (rule ext) (auto simp: curry_def)
      show ?thesis unfolding eq by (rule option_admissible)
    qed
    subgoal by simp
    subgoal for f
    proof (intro allI impI)
      fix k s y
      assume IH: "\<forall>k s y. f v k s = Some y \<longrightarrow> \<not> iov_ok s"
        and run: "(if ucast k < iov_len v then
                    case byte_at (iov_base v) (unat k) of Inl e \<Rightarrow> Some (Inl e)
                    | Inr c \<Rightarrow> (case iov_byte c s of Inl e \<Rightarrow> Some (Inl e)
                               | Inr (Inl ret) \<Rightarrow> Some (Inr (Inl ret))
                               | Inr (Inr s') \<Rightarrow> f v (k + 1) s')
                  else Some (Inr (Inr s))) = Some y"
      show "\<not> iov_ok s"
      proof
        assume "iov_ok s"
        from iov_byte_ok [OF this, of "iov_base v ! unat k"]
        obtain s' where st: "iov_byte (iov_base v ! unat k) s = Inr (Inr s')" and ok': "iov_ok s'"
          by blast
        from run cond [of k] rd [of k] st have "f v (k + 1) s' = Some y" by simp
        with IH ok' show False by blast
      qed
    qed
    done
  with ok show ?thesis by (cases "iov_bytes v k s") auto
qed

lemma iov_segs_init_diverges:
  assumes "0 < unat cnt" and "vec \<noteq> []"
    and "2 ^ 32 \<le> unat (iov_len (hd vec))" and "unat (iov_len (hd vec)) \<le> length (iov_base (hd vec))"
  shows "iov_segs vec cnt 0 (iov_init sk) = None"
proof -
  have "iov_bytes (hd vec) 0 (iov_init sk) = None"
    using iov_bytes_diverges [OF assms(3,4) iov_ok_init] .
  moreover have "(ucast (0 :: u32) :: u64) < cnt" using assms(1) by (simp add: word_less_nat_alt)
  moreover have "seg_at vec (unat (0 :: u32)) = Inr (hd vec)" using assms(2) by (simp add: seg_at_def hd_conv_nth)
  ultimately show ?thesis by (simp add: iov_segs_go)
qed

text \<open>
  Two segments that make one row: the scattered row is the contiguous row with the
  separator before the second segment's first byte replaced by \<open>*\<close>.
\<close>

lemma seg_marks_text: "concat (map item_text (seg_marks sep xs)) = sep_bytes sep xs"
  by (induction xs arbitrary: sep) (simp_all add: item_text_def)

lemma sep_bytes_append:
  "sep_bytes sep (xs @ ys) = sep_bytes sep xs @ sep_bytes (if xs = [] then sep else '' '') ys"
  by (induction xs arbitrary: sep) simp_all

lemma length_sep_bytes_sp: "length (sep_bytes '' '' xs) = 3 * length xs"
  by (induction xs) simp_all

lemma sep_bytes_star: "ys \<noteq> [] \<Longrightarrow> sep_bytes ''*'' ys = (sep_bytes '' '' ys)[0 := CHR ''*'']"
  by (cases ys) simp_all

lemma hex_line_sep: "xs \<noteq> [] \<Longrightarrow> hex_line r xs = fmt_02x r @ '':'' @ sep_bytes '' '' xs"
  by (cases xs) (simp_all add: hex_line_def)

lemma iov_dump_two_segments:
  assumes "xs \<noteq> []" "ys \<noteq> []" "length xs + length ys = 16"
  shows "iov_dump (iov_marks '' '' [xs, ys]) = [(hex_line 0 (xs @ ys) @ EOL)[3 * length xs + 3 := CHR ''*'']]"
proof -
  have its: "iov_marks '' '' [xs, ys] = seg_marks '' '' xs @ seg_marks ''*'' ys" by simp
  have len: "length (iov_marks '' '' [xs, ys]) = 16"
  proof -
    have "length (seg_marks sep zs) = length zs" for sep zs
      by (induction zs arbitrary: sep) simp_all
    with assms(3) show ?thesis by simp
  qed
  have row: "iov_row 0 (iov_marks '' '' [xs, ys]) = fmt_02x 0 @ '':'' @ sep_bytes '' '' xs @ sep_bytes ''*'' ys"
    by (simp add: its iov_row_def seg_marks_text)
  have hl: "hex_line 0 (xs @ ys) = fmt_02x 0 @ '':'' @ sep_bytes '' '' xs @ sep_bytes '' '' ys"
    using assms(1) by (simp add: hex_line_sep sep_bytes_append)
  have f0: "length (fmt_02x 0) = 2" by (simp add: dbg_eval)
  show ?thesis
    using len row hl f0 assms(2)
    by (simp add: iov_dump_def list_update_append length_sep_bytes_sp sep_bytes_star)
qed


section \<open>Properties of the scattered dumper\<close>

text \<open>
  C13: for a stream of fewer than \<open>2^32\<close> bytes in fewer than \<open>2^32\<close> segments,
  \<open>__vdbg_hex_iov\<close> terminates, prints after the caption exactly the full 16-byte rows of
  the stream (offset prefix, bytes separated by a space or by \<open>*\<close> at a segment
  boundary) and returns 3 if the stream is not empty, 0 if it is.
\<close>

theorem vdbg_hex_iov_dump:
  assumes "vdbg env hdr fl fn lineno msg sk = Inr (rc0, sk1)"
    and "unat cnt \<le> length vec" and "\<forall>v \<in> set (take (unat cnt) vec). unat (iov_len v) \<le> length (iov_base v)"
    and "length (concat (map seg_data (take (unat cnt) vec))) < 2 ^ 32" and "unat cnt < 2 ^ 32"
    and "\<not> sk_broken sk"
  shows "vdbg_hex_iov env hdr fn fl lineno vec cnt msg sk =
     Some (Inr (if concat (map seg_data (take (unat cnt) vec)) = [] then 0 else 3,
       sk1\<lparr>sk_out := sk_out sk1 @ iov_dump (iov_marks '' '' (map seg_data (take (unat cnt) vec)))\<rparr>))"
proof -
  have ok: "\<not> sk_broken sk1" using vdbg_sink_broken [OF assms(1)] assms(6) by simp
  from iov_segs_run [OF assms(2-5), of sk1] obtain s' where
    "iov_segs vec cnt 0 (iov_init sk1) = Some (Inr (Inr s'))"
    and "is_rc s' = (if concat (map seg_data (take (unat cnt) vec)) = [] then 0 else 3)"
    and "is_sink s' = sk1\<lparr>sk_out := sk_out sk1 @ iov_dump (iov_marks '' '' (map seg_data (take (unat cnt) vec)))\<rparr>"
    using ok by (auto simp: sink_rows_def)
  with assms(1) show ?thesis by (simp add: vdbg_hex_iov_def)
qed

theorem vdbg_hex_iov_dump_witness:
  "vdbg_hex_iov \<lparr>env_pid = 100, env_tid = 101, env_clock = Some (7, 250000000), env_has_gettid = True\<rparr>
     ''%f:%l: '' ''dbg.c'' ''main'' 42
     [\<lparr>iov_base = [0, 1, 2, 3, 4, 5, 6, 7, 8, 9], iov_len = 10\<rparr>, \<lparr>iov_base = [10, 11, 12, 13, 14, 15], iov_len = 6\<rparr>]
     2 (Some ''hi'') \<lparr>sk_out = [], sk_broken = False\<rparr> =
   Some (Inr (3, \<lparr>sk_out = [''dbg.c:42: hi'', ''00: 00 01 02 03 04 05 06 07 08 09*0a 0b 0c 0d 0e 0f'' @ EOL],
                   sk_broken = False\<rparr>))"
proof -
  have "iov_dump (iov_marks '' '' (map seg_data (take (unat (2 :: u64))
     [\<lparr>iov_base = [0, 1, 2, 3, 4, 5, 6, 7, 8, 9], iov_len = 10\<rparr>, \<lparr>iov_base = [10, 11, 12, 13, 14, 15], iov_len = 6\<rparr>])))
     = [''00: 00 01 02 03 04 05 06 07 08 09*0a 0b 0c 0d 0e 0f'' @ EOL]"
    by (simp add: iov_dump_def iov_row_def item_text_def seg_data_def dbg_eval)
  with vdbg_hex_iov_dump [OF vdbg_swapped_run, of 2
     "[\<lparr>iov_base = [0, 1, 2, 3, 4, 5, 6, 7, 8, 9], iov_len = 10\<rparr>, \<lparr>iov_base = [10, 11, 12, 13, 14, 15], iov_len = 6\<rparr>]"]
  show ?thesis by (simp add: seg_data_def)
qed

text \<open>
  C17: the byte counter \<open>k\<close> is a 32-bit \<open>unsigned\<close>: when the first segment has
  \<open>2^32\<close> bytes or more, \<open>k\<close> wraps to 0 before reaching \<open>iov_len\<close> and
  \<open>__vdbg_hex_iov\<close> never returns, whatever the output stream does.
\<close>

theorem vdbg_hex_iov_diverges:
  assumes "vdbg env hdr fl fn lineno msg sk = Inr (rc0, sk1)" and "0 < unat cnt" and "vec \<noteq> []"
    and "2 ^ 32 \<le> unat (iov_len (hd vec))" and "unat (iov_len (hd vec)) \<le> length (iov_base (hd vec))"
  shows "vdbg_hex_iov env hdr fn fl lineno vec cnt msg sk = None"
  using iov_segs_init_diverges [OF assms(2-5), of sk1] assms(1) by (simp add: vdbg_hex_iov_def)

theorem vdbg_hex_iov_diverges_witness:
  "vdbg_hex_iov \<lparr>env_pid = 100, env_tid = 101, env_clock = Some (7, 250000000), env_has_gettid = True\<rparr>
     ''%f:%l: '' ''dbg.c'' ''main'' 42 [\<lparr>iov_base = replicate (2 ^ 32) 0, iov_len = 2 ^ 32\<rparr>] 1 (Some ''hi'')
     \<lparr>sk_out = [], sk_broken = False\<rparr> = None"
  using vdbg_hex_iov_diverges [OF vdbg_swapped_run, of 1 "[\<lparr>iov_base = replicate (2 ^ 32) 0, iov_len = 2 ^ 32\<rparr>]"]
  by simp

text \<open>
  C19: output errors are not reported: with a failing output stream \<open>__vdbg_hex_iov\<close>
  still walks every byte and returns 3 (0 for no byte), the result of its last
  \<open>snprintf\<close>; the \<open>printf\<close> of each row (line 280) is never checked.
\<close>

theorem vdbg_hex_iov_write_error:
  assumes "vdbg env hdr fl fn lineno msg sk = Inr (rc0, sk1)" and "sk_broken sk"
    and "unat cnt \<le> length vec" and "\<forall>v \<in> set (take (unat cnt) vec). unat (iov_len v) \<le> length (iov_base v)"
    and "length (concat (map seg_data (take (unat cnt) vec))) < 2 ^ 32" and "unat cnt < 2 ^ 32"
  shows "vdbg_hex_iov env hdr fn fl lineno vec cnt msg sk =
     Some (Inr (if concat (map seg_data (take (unat cnt) vec)) = [] then 0 else 3, sk1))"
proof -
  have br: "sk_broken sk1" using vdbg_sink_broken [OF assms(1)] assms(2) by simp
  from iov_segs_run [OF assms(3-6), of sk1] obtain s' where
    "iov_segs vec cnt 0 (iov_init sk1) = Some (Inr (Inr s'))"
    and "is_rc s' = (if concat (map seg_data (take (unat cnt) vec)) = [] then 0 else 3)"
    and "is_sink s' = sk1"
    using br by (auto simp: sink_rows_def)
  with assms(1) show ?thesis by (simp add: vdbg_hex_iov_def)
qed

theorem vdbg_hex_iov_write_error_witness:
  "vdbg_hex_iov \<lparr>env_pid = 100, env_tid = 101, env_clock = Some (7, 250000000), env_has_gettid = True\<rparr>
     ''%f:%l: '' ''dbg.c'' ''main'' 42
     [\<lparr>iov_base = [0, 1, 2, 3, 4, 5, 6, 7, 8, 9], iov_len = 10\<rparr>, \<lparr>iov_base = [10, 11, 12, 13, 14, 15], iov_len = 6\<rparr>]
     2 (Some ''hi'') \<lparr>sk_out = [], sk_broken = True\<rparr> =
   Some (Inr (3, \<lparr>sk_out = [], sk_broken = True\<rparr>))"
proof -
  have "vdbg \<lparr>env_pid = 100, env_tid = 101, env_clock = Some (7, 250000000), env_has_gettid = True\<rparr>
     ''%f:%l: '' ''main'' ''dbg.c'' 42 (Some ''hi'') \<lparr>sk_out = [], sk_broken = True\<rparr> =
     Inr (-1, \<lparr>sk_out = [], sk_broken = True\<rparr>)"
    by (simp add: dbg_eval vdbg_loop.simps)
  from vdbg_hex_iov_write_error [OF this, of 2
     "[\<lparr>iov_base = [0, 1, 2, 3, 4, 5, 6, 7, 8, 9], iov_len = 10\<rparr>, \<lparr>iov_base = [10, 11, 12, 13, 14, 15], iov_len = 6\<rparr>]"]
  show ?thesis by (simp add: seg_data_def)
qed

end
