(* ===== verification/Dbg_Wrappers.thy ===== *)
theory Dbg_Wrappers
  imports Dbg_Iov
begin

text \<open>
  The interface of \<^verbatim>\<open>src/include/dbg.h\<close>: the header template \<open>DBG_HEADER\<close>, the
  wrappers \<open>__dbg\<close>, \<open>__dbg_hex\<close>, \<open>__dbg_hex_iov\<close> in their two compile-time variants
  (\<open>DBG\<close> non-zero: test the condition and call the formatter or a dumper; \<open>DBG\<close> zero:
  return 0), and the macros that supply \<open>__FILE__\<close>, \<open>__func__\<close> and \<open>__LINE__\<close>.  The
  switch \<open>DBG\<close> is a parameter of the macros; the call site's file, function and line are
  parameters too.
\<close>

section \<open>The code\<close>

text \<open>The default template of lines 63--65 (a user may define \<open>DBG_HEADER\<close> before the include).\<close>

definition DBG_HEADER :: string where
  "DBG_HEADER = ''%f:%l: ''"

text \<open>\<open>__dbg\<close> with \<open>DBG\<close> non-zero (lines 67--81) and zero (lines 117--121).\<close>

definition dbg_on ::
  "bool \<Rightarrow> dbg_env \<Rightarrow> string \<Rightarrow> string \<Rightarrow> u32 \<Rightarrow> string option \<Rightarrow> sink \<Rightarrow> ub + (int \<times> sink)"
where
  "dbg_on cond env file func line msg sk =
     (if \<not> cond then Inr (0, sk) else vdbg env DBG_HEADER file func line msg sk)"

definition dbg_off ::
  "bool \<Rightarrow> dbg_env \<Rightarrow> string \<Rightarrow> string \<Rightarrow> u32 \<Rightarrow> string option \<Rightarrow> sink \<Rightarrow> ub + (int \<times> sink)"
where
  "dbg_off cond env file func line msg sk = Inr (0, sk)"

text \<open>\<open>__dbg_hex\<close> (lines 83--97 and 123--127).\<close>

definition dbg_hex_on ::
  "bool \<Rightarrow> dbg_env \<Rightarrow> string \<Rightarrow> string \<Rightarrow> u32 \<Rightarrow> u8 list \<Rightarrow> u64 \<Rightarrow> string option \<Rightarrow> sink \<Rightarrow>
   (ub + (int \<times> sink)) option"
where
  "dbg_hex_on cond env file func lineno in_buf sz msg sk =
     (if \<not> cond then Some (Inr (0, sk)) else vdbg_hex env DBG_HEADER file func lineno in_buf sz msg sk)"

definition dbg_hex_off ::
  "bool \<Rightarrow> dbg_env \<Rightarrow> string \<Rightarrow> string \<Rightarrow> u32 \<Rightarrow> u8 list \<Rightarrow> u64 \<Rightarrow> string option \<Rightarrow> sink \<Rightarrow>
   (ub + (int \<times> sink)) option"
where
  "dbg_hex_off cond env file func lineno in_buf sz msg sk = Some (Inr (0, sk))"

text \<open>\<open>__dbg_hex_iov\<close> (lines 99--115 and 129--134): it passes \<open>file, func\<close> in the order of the prototype.\<close>

definition dbg_hex_iov_on ::
  "bool \<Rightarrow> dbg_env \<Rightarrow> string \<Rightarrow> string \<Rightarrow> u32 \<Rightarrow> iovec list \<Rightarrow> u64 \<Rightarrow> string option \<Rightarrow> sink \<Rightarrow>
   (ub + (int \<times> sink)) option"
where
  "dbg_hex_iov_on cond env file func lineno vec iovcnt msg sk =
     (if \<not> cond then Some (Inr (0, sk)) else vdbg_hex_iov env DBG_HEADER file func lineno vec iovcnt msg sk)"

definition dbg_hex_iov_off ::
  "bool \<Rightarrow> dbg_env \<Rightarrow> string \<Rightarrow> string \<Rightarrow> u32 \<Rightarrow> iovec list \<Rightarrow> u64 \<Rightarrow> string option \<Rightarrow> sink \<Rightarrow>
   (ub + (int \<times> sink)) option"
where
  "dbg_hex_iov_off cond env file func lineno vec iovcnt msg sk = Some (Inr (0, sk))"

text \<open>
  The macros of lines 143--208; \<open>DBG\<close> selects the variant of the wrapper the preprocessor
  kept; \<open>file\<close>, \<open>func\<close>, \<open>line\<close> are \<open>__FILE__\<close>, \<open>__func__\<close>, \<open>__LINE__\<close> of the call.
\<close>

definition dbg_cond :: "bool \<Rightarrow> bool \<Rightarrow> dbg_env \<Rightarrow> string \<Rightarrow> string \<Rightarrow> u32 \<Rightarrow> string option \<Rightarrow> sink \<Rightarrow> ub + (int \<times> sink)"
where
  "dbg_cond DBG cond env file func line msg sk =
     (if DBG then dbg_on cond env file func line msg sk else dbg_off cond env file func line msg sk)"

definition dbg_t :: "bool \<Rightarrow> dbg_env \<Rightarrow> string \<Rightarrow> string \<Rightarrow> u32 \<Rightarrow> string option \<Rightarrow> sink \<Rightarrow> ub + (int \<times> sink)"
where
  "dbg_t DBG = dbg_cond DBG True"

definition dbg_f :: "bool \<Rightarrow> dbg_env \<Rightarrow> string \<Rightarrow> string \<Rightarrow> u32 \<Rightarrow> string option \<Rightarrow> sink \<Rightarrow> ub + (int \<times> sink)"
where
  "dbg_f DBG = dbg_cond DBG False"

definition dbg :: "bool \<Rightarrow> dbg_env \<Rightarrow> string \<Rightarrow> string \<Rightarrow> u32 \<Rightarrow> string option \<Rightarrow> sink \<Rightarrow> ub + (int \<times> sink)"
where
  "dbg DBG = dbg_t DBG"

definition dbg_hex_cond ::
  "bool \<Rightarrow> bool \<Rightarrow> dbg_env \<Rightarrow> string \<Rightarrow> string \<Rightarrow> u32 \<Rightarrow> u8 list \<Rightarrow> u64 \<Rightarrow> string option \<Rightarrow> sink \<Rightarrow>
   (ub + (int \<times> sink)) option"
where
  "dbg_hex_cond DBG cond env file func line in_buf sz msg sk =
     (if DBG then dbg_hex_on cond env file func line in_buf sz msg sk
      else dbg_hex_off cond env file func line in_buf sz msg sk)"

definition dbg_hex ::
  "bool \<Rightarrow> dbg_env \<Rightarrow> string \<Rightarrow> string \<Rightarrow> u32 \<Rightarrow> u8 list \<Rightarrow> u64 \<Rightarrow> string option \<Rightarrow> sink \<Rightarrow>
   (ub + (int \<times> sink)) option"
where
  "dbg_hex DBG = dbg_hex_cond DBG True"

definition dbg_hex_iov_cond ::
  "bool \<Rightarrow> bool \<Rightarrow> dbg_env \<Rightarrow> string \<Rightarrow> string \<Rightarrow> u32 \<Rightarrow> iovec list \<Rightarrow> u64 \<Rightarrow> string option \<Rightarrow> sink \<Rightarrow>
   (ub + (int \<times> sink)) option"
where
  "dbg_hex_iov_cond DBG cond env file func line vec iovcnt msg sk =
     (if DBG then dbg_hex_iov_on cond env file func line vec iovcnt msg sk
      else dbg_hex_iov_off cond env file func line vec iovcnt msg sk)"

definition dbg_hex_iov ::
  "bool \<Rightarrow> dbg_env \<Rightarrow> string \<Rightarrow> string \<Rightarrow> u32 \<Rightarrow> iovec list \<Rightarrow> u64 \<Rightarrow> string option \<Rightarrow> sink \<Rightarrow>
   (ub + (int \<times> sink)) option"
where
  "dbg_hex_iov DBG = dbg_hex_iov_cond DBG True"

declare DBG_HEADER_def [dbg_eval] dbg_on_def [dbg_eval] dbg_off_def [dbg_eval] dbg_hex_on_def [dbg_eval]
  dbg_hex_off_def [dbg_eval] dbg_hex_iov_on_def [dbg_eval] dbg_hex_iov_off_def [dbg_eval] dbg_cond_def [dbg_eval]
  dbg_t_def [dbg_eval] dbg_f_def [dbg_eval] dbg_def [dbg_eval] dbg_hex_cond_def [dbg_eval] dbg_hex_def [dbg_eval]
  dbg_hex_iov_cond_def [dbg_eval] dbg_hex_iov_def [dbg_eval]

section \<open>The default header\<close>

lemma hdr_text_default:
  "NUL \<notin> set func \<Longrightarrow>
   hdr_text env file func line DBG_HEADER = Inr (func @ '':'' @ fmt_u (unat line) @ '': '')"
  by (simp add: DBG_HEADER_def dbg_eval takeWhile_eq_all_conv; blast)

lemma vdbg_default:
  assumes "NUL \<notin> set func" and "length func + length (fmt_u (unat line)) + 3 \<le> 254"
    and "length func + length (fmt_u (unat line)) + 3 + length m \<le> 255" and "\<not> sk_broken sk"
  shows "vdbg env DBG_HEADER file func line (Some m) sk =
     Inr (int (length func + length (fmt_u (unat line)) + 3 + length m),
          sk\<lparr>sk_out := sk_out sk @ [func @ '':'' @ fmt_u (unat line) @ '': '' @ takeWhile (\<lambda>c. c \<noteq> NUL) m]\<rparr>)"
proof -
  let ?H = "func @ '':'' @ fmt_u (unat line) @ '': ''"
  have "length ?H \<le> 254" "length ?H + length m \<le> 255" using assms(2,3) by simp_all
  from vdbg_loop_prints [OF hdr_text_default [OF assms(1), of env _ line] this]
  obtain s where "vdbg_loop env DBG_HEADER file func line (Some m) vdbg_init = Inr s"
    and "fs_rc s = int (length ?H + length m)"
    and "c_str (fs_buf s) = Inr (?H @ takeWhile (\<lambda>c. c \<noteq> NUL) m)"
    by blast
  with assms(4) show ?thesis by (simp add: vdbg_def printf_s_def)
qed

section \<open>Properties of the interface\<close>

text \<open>
  C14: with \<open>DBG\<close> on, \<open>dbg(fmt, ...)\<close> prints, under the default template, the calling
  function, a colon, the line number, a colon and a space, then the message, and returns
  the length of that text, as long as it fits the 256-byte buffer.
\<close>

theorem dbg_default_header:
  assumes "NUL \<notin> set func" and "length func + length (fmt_u (unat line)) + 3 \<le> 254"
    and "length func + length (fmt_u (unat line)) + 3 + length m \<le> 255" and "\<not> sk_broken sk"
  shows "dbg True env file func line (Some m) sk =
     Inr (int (length func + length (fmt_u (unat line)) + 3 + length m),
          sk\<lparr>sk_out := sk_out sk @ [func @ '':'' @ fmt_u (unat line) @ '': '' @ takeWhile (\<lambda>c. c \<noteq> NUL) m]\<rparr>)"
  using vdbg_default [OF assms] by (simp add: dbg_def dbg_t_def dbg_cond_def dbg_on_def)

theorem dbg_default_header_witness:
  "dbg True \<lparr>env_pid = 100, env_tid = 101, env_clock = None, env_has_gettid = True\<rparr>
     ''dbg.c'' ''main'' 42 (Some ''hi'') \<lparr>sk_out = [], sk_broken = False\<rparr> =
   Inr (11, \<lparr>sk_out = [''main:42: hi''], sk_broken = False\<rparr>)"
proof -
  have "NUL \<notin> set ''main''" "length ''main'' + length (fmt_u (unat (42 :: u32))) + 3 \<le> 254"
    "length ''main'' + length (fmt_u (unat (42 :: u32))) + 3 + length ''hi'' \<le> 255"
    "\<not> sk_broken \<lparr>sk_out = [], sk_broken = False\<rparr>"
    by (simp_all add: dbg_eval)
  from dbg_default_header [OF this, of "\<lparr>env_pid = 100, env_tid = 101, env_clock = None, env_has_gettid = True\<rparr>" "''dbg.c''"]
  show ?thesis by (simp add: dbg_eval)
qed

text \<open>
  C15: the caption of \<open>dbg_hex_iov\<close> is the message \<open>dbg\<close> would print with the calling
  file and function exchanged: \<open>__dbg_hex_iov\<close> passes them in the order of the
  prototype, and the definition of \<open>__vdbg_hex_iov\<close> names them the other way round.
\<close>

theorem dbg_hex_iov_caption:
  "dbg_hex_iov True env file func line [] 0 msg sk =
     (case dbg True env func file line msg sk of
        Inl e \<Rightarrow> Some (Inl e)
      | Inr (rc, sk') \<Rightarrow> Some (Inr (0, sk')))"
  by (simp add: dbg_hex_iov_def dbg_hex_iov_cond_def dbg_hex_iov_on_def vdbg_hex_iov_def dbg_def dbg_t_def
                dbg_cond_def dbg_on_def iov_segs_stop iov_init_def split: sum.split)

text \<open>
  C16: with \<open>DBG\<close> zero, or with a false condition, no wrapper prints, reads the data it
  is given or fails: each returns 0 and leaves the stream as it was.
\<close>

theorem dbg_disabled_silent:
  "dbg_cond False cond env file func line msg sk = Inr (0, sk) \<and>
   dbg_hex_cond False cond env file func line in_buf sz msg sk = Some (Inr (0, sk)) \<and>
   dbg_hex_iov_cond False cond env file func line vec iovcnt msg sk = Some (Inr (0, sk)) \<and>
   dbg_f DBG env file func line msg sk = Inr (0, sk) \<and>
   dbg_hex_cond DBG False env file func line in_buf sz msg sk = Some (Inr (0, sk)) \<and>
   dbg_hex_iov_cond DBG False env file func line vec iovcnt msg sk = Some (Inr (0, sk))"
  by (simp add: dbg_cond_def dbg_off_def dbg_hex_cond_def dbg_hex_off_def dbg_hex_iov_cond_def
                dbg_hex_iov_off_def dbg_f_def dbg_on_def dbg_hex_on_def dbg_hex_iov_on_def)

text \<open>
  C23: the components composed: with \<open>DBG\<close> on, \<open>dbg_hex(buf, size, fmt, ...)\<close> under the
  default template prints one caption line (function, line, message) and then exactly the
  rows of \<open>hex_dump\<close> of the \<open>size\<close> bytes, and returns 0.
\<close>

theorem dbg_hex_default:
  assumes "NUL \<notin> set func" and "length func + length (fmt_u (unat line)) + 3 \<le> 254"
    and "length func + length (fmt_u (unat line)) + 3 + length m \<le> 255" and "\<not> sk_broken sk"
    and "unat sz \<le> length data" and "unat sz < 2 ^ 32"
  shows "dbg_hex True env fl func line data sz (Some m) sk =
     Some (Inr (0, sk\<lparr>sk_out := sk_out sk @
       (func @ '':'' @ fmt_u (unat line) @ '': '' @ takeWhile (\<lambda>c. c \<noteq> NUL) m) # hex_dump (take (unat sz) data)\<rparr>))"
  using vdbg_default [OF assms(1-4), of env fl] hex_rows_dump [OF assms(5,6), of _ 0] assms(4)
  by (simp add: dbg_hex_def dbg_hex_cond_def dbg_hex_on_def vdbg_hex_def hex_dump_def min_absorb2 assms(5))

theorem dbg_hex_default_witness:
  "dbg_hex True \<lparr>env_pid = 100, env_tid = 101, env_clock = None, env_has_gettid = True\<rparr>
     ''dbg.c'' ''main'' 42 [1, 0xab, 3] 3 (Some ''hi'') \<lparr>sk_out = [], sk_broken = False\<rparr> =
   Some (Inr (0, \<lparr>sk_out = [''main:42: hi'', ''00: 01 ab 03'' @ EOL], sk_broken = False\<rparr>))"
proof -
  have "NUL \<notin> set ''main''" "length ''main'' + length (fmt_u (unat (42 :: u32))) + 3 \<le> 254"
    "length ''main'' + length (fmt_u (unat (42 :: u32))) + 3 + length ''hi'' \<le> 255"
    "\<not> sk_broken \<lparr>sk_out = [], sk_broken = False\<rparr>"
    "unat (3 :: u64) \<le> length [1, 0xab, 3 :: u8]" "unat (3 :: u64) < 2 ^ 32"
    by (simp_all add: dbg_eval)
  from dbg_hex_default [OF this, of "\<lparr>env_pid = 100, env_tid = 101, env_clock = None, env_has_gettid = True\<rparr>" "''dbg.c''"]
  show ?thesis by (simp add: dbg_eval)
qed

text \<open>
  C30: the scattered dump composed: with \<open>DBG\<close> on, \<open>dbg_hex_iov(vec, iovcnt, fmt, ...)\<close>
  under the default template prints one caption line and then exactly the full rows of
  \<open>iov_dump\<close>, and returns 3 (0 for no byte).  The caption shows the file name where the
  default template asks for the function, because the definition of \<open>__vdbg_hex_iov\<close>
  names its parameters the other way round.
\<close>

theorem dbg_hex_iov_default:
  assumes cap: "NUL \<notin> set fl" "length fl + length (fmt_u (unat line)) + 3 \<le> 254"
      "length fl + length (fmt_u (unat line)) + 3 + length m \<le> 255" and ok: "\<not> sk_broken sk"
    and vec: "unat cnt \<le> length vec" "\<forall>v \<in> set (take (unat cnt) vec). unat (iov_len v) \<le> length (iov_base v)"
      "length (concat (map seg_data (take (unat cnt) vec))) < 2 ^ 32" "unat cnt < 2 ^ 32"
  shows "dbg_hex_iov True env fl func line vec cnt (Some m) sk =
     Some (Inr (if concat (map seg_data (take (unat cnt) vec)) = [] then 0 else 3,
       sk\<lparr>sk_out := sk_out sk @ (fl @ '':'' @ fmt_u (unat line) @ '': '' @ takeWhile (\<lambda>c. c \<noteq> NUL) m) #
         iov_dump (iov_marks '' '' (map seg_data (take (unat cnt) vec)))\<rparr>))"
proof -
  let ?sk1 = "sk\<lparr>sk_out := sk_out sk @ [fl @ '':'' @ fmt_u (unat line) @ '': '' @ takeWhile (\<lambda>c. c \<noteq> NUL) m]\<rparr>"
  from vdbg_default [OF cap ok, of env func]
  have c: "vdbg env DBG_HEADER func fl line (Some m) sk =
      Inr (int (length fl + length (fmt_u (unat line)) + 3 + length m), ?sk1)" .
  from iov_segs_run [OF vec, of ?sk1] obtain s' where
    "iov_segs vec cnt 0 (iov_init ?sk1) = Some (Inr (Inr s'))"
    and "is_rc s' = (if concat (map seg_data (take (unat cnt) vec)) = [] then 0 else 3)"
    and "is_sink s' = sink_rows ?sk1 (iov_dump (iov_marks '' '' (map seg_data (take (unat cnt) vec))))"
    by blast
  with c ok show ?thesis
    by (simp add: dbg_hex_iov_def dbg_hex_iov_cond_def dbg_hex_iov_on_def vdbg_hex_iov_def sink_rows_def)
qed

theorem dbg_hex_iov_default_witness:
  "dbg_hex_iov True \<lparr>env_pid = 100, env_tid = 101, env_clock = None, env_has_gettid = True\<rparr>
     ''dbg.c'' ''main'' 42 [\<lparr>iov_base = [1, 0xab], iov_len = 2\<rparr>] 1 (Some ''hi'') \<lparr>sk_out = [], sk_broken = False\<rparr> =
   Some (Inr (3, \<lparr>sk_out = [''dbg.c:42: hi''], sk_broken = False\<rparr>))"
proof -
  have "NUL \<notin> set ''dbg.c''" "length ''dbg.c'' + length (fmt_u (unat (42 :: u32))) + 3 \<le> 254"
    "length ''dbg.c'' + length (fmt_u (unat (42 :: u32))) + 3 + length ''hi'' \<le> 255"
    "\<not> sk_broken \<lparr>sk_out = [], sk_broken = False\<rparr>"
    "unat (1 :: u64) \<le> length [\<lparr>iov_base = [1, 0xab :: u8], iov_len = 2\<rparr>]"
    "\<forall>v \<in> set (take (unat (1 :: u64)) [\<lparr>iov_base = [1, 0xab :: u8], iov_len = 2\<rparr>]). unat (iov_len v) \<le> length (iov_base v)"
    "length (concat (map seg_data (take (unat (1 :: u64)) [\<lparr>iov_base = [1, 0xab :: u8], iov_len = 2\<rparr>]))) < 2 ^ 32"
    "unat (1 :: u64) < 2 ^ 32"
    by (simp_all add: dbg_eval seg_data_def)
  from dbg_hex_iov_default [OF this, of "\<lparr>env_pid = 100, env_tid = 101, env_clock = None, env_has_gettid = True\<rparr>" "''main''"]
  show ?thesis by (simp add: dbg_eval seg_data_def iov_dump_def)
qed

end
