(* ===== verification/Dbg_Iov_Machine.thy ===== *)
theory Dbg_Iov_Machine
  imports Dbg_Iov
begin

text \<open>
  The loop nest of \<open>__vdbg_hex_iov\<close> (\<^verbatim>\<open>src/dbg.c\<close> lines 262--291) as a transition
  system: a configuration is a program point (the test of the segment loop with \<open>j\<close>, the
  test of the byte loop with \<open>j, k\<close>) with the loop locals \<open>iov_state\<close>, or an exit
  (undefined behaviour, the early \<open>return rc\<close>, the normal end of the loops).  \<open>iov_step\<close>
  has one rule per branch of the code, reading \<open>vec[j]\<close> again at every test as the code
  does.  The lemmas show that the machine halts with an outcome exactly when the recursive
  model \<open>iov_segs\<close> of \<open>Dbg_Iov\<close> returns it (\<open>iov_segs_steps\<close>, by fixpoint induction one
  way and by induction over the run the other), and that every reachable configuration
  is well formed (\<open>cfg_ok\<close>, by rule induction).
\<close>

section \<open>The loop nest as a transition system\<close>

datatype iov_pc =
    At_seg u32            \<comment> \<open>at the test \<open>j < iovcnt\<close> of the segment loop\<close>
  | At_byte u32 u32       \<comment> \<open>at the test \<open>k < vec[j].iov_len\<close> of the byte loop\<close>

datatype iov_cfg =
    Cfg iov_pc iov_state
  | Halt "iov_state iov_res"

inductive iov_step :: "iovec list \<Rightarrow> u64 \<Rightarrow> iov_cfg \<Rightarrow> iov_cfg \<Rightarrow> bool" for vec iovcnt where
  seg_exit: "\<not> ucast j < iovcnt \<Longrightarrow> iov_step vec iovcnt (Cfg (At_seg j) s) (Halt (Inr (Inr s)))"
| seg_oob: "ucast j < iovcnt \<Longrightarrow> seg_at vec (unat j) = Inl e \<Longrightarrow>
     iov_step vec iovcnt (Cfg (At_seg j) s) (Halt (Inl e))"
| seg_enter: "ucast j < iovcnt \<Longrightarrow> seg_at vec (unat j) = Inr v \<Longrightarrow>
     iov_step vec iovcnt (Cfg (At_seg j) s) (Cfg (At_byte j 0) s)"
| byte_exit: "seg_at vec (unat j) = Inr v \<Longrightarrow> \<not> ucast k < iov_len v \<Longrightarrow>
     iov_step vec iovcnt (Cfg (At_byte j k) s) (Cfg (At_seg (j + 1)) (s\<lparr>is_sep := ''*''\<rparr>))"
| byte_oob: "seg_at vec (unat j) = Inr v \<Longrightarrow> ucast k < iov_len v \<Longrightarrow> byte_at (iov_base v) (unat k) = Inl e \<Longrightarrow>
     iov_step vec iovcnt (Cfg (At_byte j k) s) (Halt (Inl e))"
| byte_ub: "seg_at vec (unat j) = Inr v \<Longrightarrow> ucast k < iov_len v \<Longrightarrow> byte_at (iov_base v) (unat k) = Inr c \<Longrightarrow>
     iov_byte c s = Inl e \<Longrightarrow> iov_step vec iovcnt (Cfg (At_byte j k) s) (Halt (Inl e))"
| byte_ret: "seg_at vec (unat j) = Inr v \<Longrightarrow> ucast k < iov_len v \<Longrightarrow> byte_at (iov_base v) (unat k) = Inr c \<Longrightarrow>
     iov_byte c s = Inr (Inl ret) \<Longrightarrow> iov_step vec iovcnt (Cfg (At_byte j k) s) (Halt (Inr (Inl ret)))"
| byte_next: "seg_at vec (unat j) = Inr v \<Longrightarrow> ucast k < iov_len v \<Longrightarrow> byte_at (iov_base v) (unat k) = Inr c \<Longrightarrow>
     iov_byte c s = Inr (Inr s') \<Longrightarrow> iov_step vec iovcnt (Cfg (At_byte j k) s) (Cfg (At_byte j (k + 1)) s')"

code_pred iov_step .

definition cfg_res :: "iovec list \<Rightarrow> u64 \<Rightarrow> iov_cfg \<Rightarrow> iov_state iov_res option" where
  "cfg_res vec iovcnt c =
     (case c of
        Halt r \<Rightarrow> Some r
      | Cfg (At_seg j) s \<Rightarrow> iov_segs vec iovcnt j s
      | Cfg (At_byte j k) s \<Rightarrow>
          (case seg_at vec (unat j) of
             Inl e \<Rightarrow> Some (Inl e)
           | Inr v \<Rightarrow>
               Option.bind (iov_bytes v k s) (\<lambda>r.
                 case r of
                   Inl e \<Rightarrow> Some (Inl e)
                 | Inr (Inl ret) \<Rightarrow> Some (Inr (Inl ret))
                 | Inr (Inr s') \<Rightarrow> iov_segs vec iovcnt (j + 1) (s'\<lparr>is_sep := ''*''\<rparr>))))"

text \<open>Where the machine goes when the byte loop of segment \<open>j\<close> ends with \<open>r\<close>.\<close>

definition bytes_cont :: "u32 \<Rightarrow> iov_state iov_res \<Rightarrow> iov_cfg" where
  "bytes_cont j r =
     (case r of
        Inl e \<Rightarrow> Halt (Inl e)
      | Inr (Inl ret) \<Rightarrow> Halt (Inr (Inl ret))
      | Inr (Inr s') \<Rightarrow> Cfg (At_seg (j + 1)) (s'\<lparr>is_sep := ''*''\<rparr>))"

text \<open>
  The well-formedness of a configuration: the loop locals keep \<open>iov_ok\<close> (the open row
  fits \<open>out_buf\<close>, \<open>p + remaining = 256\<close>, \<open>sep\<close> is \<open>" "\<close> or \<open>"*"\<close>), the byte loop runs
  only on a segment of the array, and the early \<open>return rc\<close> of a failed \<open>snprintf\<close> is
  never taken.
\<close>

definition cfg_ok :: "iovec list \<Rightarrow> iov_cfg \<Rightarrow> bool" where
  "cfg_ok vec c =
     (case c of
        Cfg (At_seg j) s \<Rightarrow> iov_ok s
      | Cfg (At_byte j k) s \<Rightarrow> iov_ok s \<and> unat j < length vec
      | Halt (Inl e) \<Rightarrow> True
      | Halt (Inr (Inl ret)) \<Rightarrow> False
      | Halt (Inr (Inr s)) \<Rightarrow> iov_ok s)"

inductive_cases iov_step_HaltE [elim!]: "iov_step vec iovcnt (Halt r) c"
inductive_cases iov_step_segE: "iov_step vec iovcnt (Cfg (At_seg j) s) c"
inductive_cases iov_step_byteE: "iov_step vec iovcnt (Cfg (At_byte j k) s) c"

lemma cfg_res_step: "iov_step vec iovcnt c c' \<Longrightarrow> cfg_res vec iovcnt c = cfg_res vec iovcnt c'"
  by (induction rule: iov_step.induct)
     (simp_all add: cfg_res_def iov_segs_stop iov_segs_go iov_bytes_stop iov_bytes_go)

lemma cfg_res_steps: "(iov_step vec iovcnt)\<^sup>*\<^sup>* c (Halt r) \<Longrightarrow> cfg_res vec iovcnt c = Some r"
proof (induction rule: converse_rtranclp_induct)
  case base
  show ?case by (simp add: cfg_res_def)
next
  case (step y z)
  then show ?case using cfg_res_step [OF step.hyps(1)] by simp
qed

lemma iov_bytes_reach:
  assumes "iov_bytes v k s = Some r" and "seg_at vec (unat j) = Inr v"
  shows "(iov_step vec iovcnt)\<^sup>*\<^sup>* (Cfg (At_byte j k) s) (bytes_cont j r)"
  using assms
proof (induction v k s r rule: iov_bytes.raw_induct)
  case (1 f v k s r)
  show ?case
  proof (cases "ucast k < iov_len v")
    case False
    then have "r = Inr (Inr s)" using 1(2) by simp
    with False 1(4) show ?thesis by (auto simp: bytes_cont_def intro!: r_into_rtranclp iov_step.byte_exit)
  next
    case True
    show ?thesis
    proof (cases "byte_at (iov_base v) (unat k)")
      case (Inl e)
      then have "r = Inl e" using 1(2) True by simp
      with Inl True 1(4) show ?thesis by (auto simp: bytes_cont_def intro: iov_step.byte_oob)
    next
      case (Inr c)
      show ?thesis
      proof (cases "iov_byte c s")
        case (Inl e)
        then have "r = Inl e" using 1(2) True Inr by simp
        with Inl Inr True 1(4) show ?thesis by (auto simp: bytes_cont_def intro: iov_step.byte_ub)
      next
        case (Inr x)
        show ?thesis
        proof (cases x)
          case (Inl ret)
          then have "r = Inr (Inl ret)" using 1(2) True \<open>byte_at (iov_base v) (unat k) = Inr c\<close> Inr by simp
          with Inl Inr \<open>byte_at (iov_base v) (unat k) = Inr c\<close> True 1(4) show ?thesis
            by (auto simp: bytes_cont_def intro: iov_step.byte_ret)
        next
          case (Inr s')
          then have "f v (k + 1) s' = Some r"
            using 1(2) True \<open>byte_at (iov_base v) (unat k) = Inr c\<close> \<open>iov_byte c s = Inr x\<close> by simp
          moreover have "iov_bytes v (k + 1) s' = Some r"
            using 1(3) True \<open>byte_at (iov_base v) (unat k) = Inr c\<close> \<open>iov_byte c s = Inr x\<close> Inr
            by (simp add: iov_bytes_go)
          ultimately have "(iov_step vec iovcnt)\<^sup>*\<^sup>* (Cfg (At_byte j (k + 1)) s') (bytes_cont j r)"
            using 1(1) 1(4) by blast
          then show ?thesis
            using iov_step.byte_next [OF 1(4) True \<open>byte_at (iov_base v) (unat k) = Inr c\<close>]
              \<open>iov_byte c s = Inr x\<close> Inr by (auto intro: converse_rtranclp_into_rtranclp)
        qed
      qed
    qed
  qed
qed (fact assms(1))

lemma iov_segs_reach:
  assumes "iov_segs vec iovcnt j s = Some r"
  shows "(iov_step vec iovcnt)\<^sup>*\<^sup>* (Cfg (At_seg j) s) (Halt r)"
  using assms
proof (induction vec iovcnt j s r rule: iov_segs.raw_induct)
  case (1 f vec iovcnt j s r)
  show ?case
  proof (cases "ucast j < iovcnt")
    case False
    then have "r = Inr (Inr s)" using 1(2) by simp
    with False show ?thesis by (auto intro!: r_into_rtranclp iov_step.seg_exit)
  next
    case True
    show ?thesis
    proof (cases "seg_at vec (unat j)")
      case (Inl e)
      then have "r = Inl e" using 1(2) True by simp
      with Inl True show ?thesis by (auto intro!: r_into_rtranclp iov_step.seg_oob)
    next
      case (Inr v)
      obtain r1 where b: "iov_bytes v 0 s = Some r1"
        and g: "(case r1 of Inl e \<Rightarrow> Some (Inl e) | Inr (Inl ret) \<Rightarrow> Some (Inr (Inl ret))
                 | Inr (Inr s') \<Rightarrow> f vec iovcnt (j + 1) (s'\<lparr>is_sep := ''*''\<rparr>)) = Some r"
        using 1(2) True Inr by (auto simp: bind_eq_Some_conv)
      have first: "iov_step vec iovcnt (Cfg (At_seg j) s) (Cfg (At_byte j 0) s)"
        using True Inr by (rule iov_step.seg_enter)
      have seg: "(iov_step vec iovcnt)\<^sup>*\<^sup>* (Cfg (At_byte j 0) s) (bytes_cont j r1)"
        using iov_bytes_reach [OF b Inr] .
      have "(iov_step vec iovcnt)\<^sup>*\<^sup>* (bytes_cont j r1) (Halt r)"
      proof (cases r1)
        case (Inl e)
        with g show ?thesis by (auto simp: bytes_cont_def)
      next
        case (Inr x)
        show ?thesis
        proof (cases x)
          case (Inl ret)
          with g \<open>r1 = Inr x\<close> show ?thesis by (auto simp: bytes_cont_def)
        next
          case (Inr s')
          with g \<open>r1 = Inr x\<close> have "f vec iovcnt (j + 1) (s'\<lparr>is_sep := ''*''\<rparr>) = Some r" by simp
          moreover have "iov_segs vec iovcnt (j + 1) (s'\<lparr>is_sep := ''*''\<rparr>) = Some r"
            using 1(3) True \<open>seg_at vec (unat j) = Inr v\<close> b \<open>r1 = Inr x\<close> Inr
            by (simp add: iov_segs_go)
          ultimately show ?thesis using 1(1) \<open>r1 = Inr x\<close> Inr by (simp add: bytes_cont_def)
        qed
      qed
      with first seg show ?thesis by (meson converse_rtranclp_into_rtranclp rtranclp_trans)
    qed
  qed
qed (fact assms)

lemma iov_segs_steps: "iov_segs vec iovcnt j s = Some r \<longleftrightarrow> (iov_step vec iovcnt)\<^sup>*\<^sup>* (Cfg (At_seg j) s) (Halt r)"
  using iov_segs_reach cfg_res_steps [of vec iovcnt "Cfg (At_seg j) s" r] by (auto simp: cfg_res_def)

lemma iov_ok_sep_star: "iov_ok s \<Longrightarrow> iov_ok (s\<lparr>is_sep := ''*''\<rparr>)"
  by (simp add: iov_ok_def)

lemma cfg_ok_step: "iov_step vec iovcnt c c' \<Longrightarrow> cfg_ok vec c \<Longrightarrow> cfg_ok vec c'"
proof (induction rule: iov_step.induct)
  case (byte_ub j v k c s e)
  then show ?case using iov_byte_ok [of s c] by (simp add: cfg_ok_def)
next
  case (byte_ret j v k c s ret)
  then show ?case using iov_byte_ok [of s c] by (simp add: cfg_ok_def)
next
  case (byte_next j v k c s s')
  then show ?case using iov_byte_ok [of s c] by (simp add: cfg_ok_def)
qed (auto simp: cfg_ok_def seg_at_def iov_ok_sep_star split: if_splits)

lemma cfg_ok_steps: "(iov_step vec iovcnt)\<^sup>*\<^sup>* c c' \<Longrightarrow> cfg_ok vec c \<Longrightarrow> cfg_ok vec c'"
  by (induction rule: rtranclp_induct) (auto intro: cfg_ok_step)

section \<open>Properties of the transition system\<close>

text \<open>
  C21: every configuration reachable from the start of the loop nest is well formed, for
  any segments and any byte offset (wrapped ones included): the open row fits \<open>out_buf\<close>
  with \<open>p + remaining = 256\<close>, \<open>sep\<close> is \<open>" "\<close> or \<open>"*"\<close>, the byte loop runs on a segment of
  the array, and the early return of a failed \<open>snprintf\<close> is never reached.
\<close>

theorem iov_machine_ok:
  assumes "(iov_step vec iovcnt)\<^sup>*\<^sup>* (Cfg (At_seg 0) (iov_init sk)) c"
  shows "cfg_ok vec c"
  using cfg_ok_steps [OF assms] iov_ok_init by (simp add: cfg_ok_def)

theorem iov_machine_ok_witness:
  "cfg_ok [\<lparr>iov_base = [7], iov_len = 1\<rparr>] (Cfg (At_byte 0 0) (iov_init \<lparr>sk_out = [], sk_broken = False\<rparr>))"
proof -
  have "iov_step [\<lparr>iov_base = [7], iov_len = 1\<rparr>] 1 (Cfg (At_seg 0) (iov_init \<lparr>sk_out = [], sk_broken = False\<rparr>))
          (Cfg (At_byte 0 0) (iov_init \<lparr>sk_out = [], sk_broken = False\<rparr>))"
    by (rule iov_step.seg_enter) (simp_all add: seg_at_def)
  then show ?thesis by (rule iov_machine_ok [OF r_into_rtranclp])
qed


end
