(* ===== verification/Spec2Isabelle.thy ===== *)
theory Spec2Isabelle
  imports Dbg_Wrappers Dbg_Iov_Machine
begin

text \<open>
  \<^bold>\<open>A verification model of the \<open>dbg\<close> debugging-output library.\<close>

  \<^bold>\<open>The program.\<close>  \<^verbatim>\<open>src/dbg.c\<close> and \<^verbatim>\<open>src/include/dbg.h\<close> implement:
  \<^item> \<open>dbg_add_hdr\<close> (dbg.c 48--110), the header expander: it reads the selector after a
    \<open>%\<close> of the template (\<open>%% %B %f %F %l %p %t %T\<close>; any other selector expands to nothing)
    and writes its text at \<open>p\<close> with \<open>snprintf\<close>, or stores \<open>%\<close> directly;
  \<^item> \<open>__vdbg\<close> (dbg.c 112--170), the bounded formatter: a do-while loop over the template
    that copies literals, calls \<open>dbg_add_hdr\<close> at each \<open>%\<close> and appends the caller's
    message with \<open>vsnprintf\<close> at the terminator, all into the stack array \<open>char buf[256]\<close>,
    then one \<open>printf("%s", buf)\<close>; it returns the untruncated length or a negative code;
  \<^item> \<open>__vdbg_hex\<close> (dbg.c 183--227), the contiguous dumper: the caption through
    \<open>__vdbg\<close>, then one row per 16 bytes, each built in \<open>out_buf[256]\<close> and printed with
    \<open>EOL\<close>;
  \<^item> \<open>__vdbg_hex_iov\<close> (dbg.c 240--294), the scattered dumper: the caption, then one pass
    over the bytes of all segments with a running byte offset, a row printed after every
    16th byte, \<open>*\<close> before the first byte after a segment boundary;
  \<^item> the wrappers \<open>__dbg\<close>, \<open>__dbg_hex\<close>, \<open>__dbg_hex_iov\<close> (dbg.h 67--135) that test a
    condition, in a variant for \<open>DBG\<close> non-zero and one for \<open>DBG\<close> zero, and the macros
    (dbg.h 143--208) that pass \<open>__FILE__\<close>, \<open>__func__\<close>, \<open>__LINE__\<close>.

  \<^bold>\<open>The theories.\<close>
  \<^item> \<open>Dbg_Prelude\<close>: the C types as words (\<open>u8\<close>, \<open>u32\<close>, \<open>s32\<close>, \<open>u64\<close> for \<open>size_t\<close>),
    character arrays as \<open>char option list\<close> (\<open>None\<close> a cell never written), the undefined
    behaviours the model detects (\<open>ub\<close>: a store or load outside an array, a load of an
    indeterminate value, a signed \<open>int\<close> overflow past \<open>INT_MAX\<close>) threaded by
    \<open>ub_bind\<close>, the macro \<open>MIN\<close> (\<open>MIN_macro\<close>), and shared list and word lemmas; the
    collections \<open>ub_simps\<close>, \<open>cbuf_facts\<close> and \<open>dbg_eval\<close> (the rules \<open>simp\<close> uses to
    evaluate the model on concrete inputs).
  \<^item> \<open>Libc\<close>: the C library as the code uses it, from its contracts (it is not code of the
    repository): \<open>snprintf\<close> (stores at most \<open>n - 1\<close> characters and a terminator, returns
    the full length), \<open>vsnprintf\<close> (a message \<open>None\<close> is a conversion error, result
    \<open>-1\<close>), the conversions \<open>%u %d %ld %06ld %02x %s\<close>, \<open>strrchr\<close>, reading a C string
    (\<open>c_str\<close>), \<open>printf\<close> on the output stream \<open>sink\<close> (the texts written and an error
    state); the views \<open>buf_exact\<close>, \<open>buf_holds\<close> of an array's contents; and readers
    inverting the numeric conversions (\<open>read_dec\<close>, \<open>read_int\<close>, \<open>read_time\<close>) with their
    round-trip lemmas.
  \<^item> \<open>Dbg_Expander\<close>: \<open>dbg_add_hdr\<close> as a function of the template index, the array and
    \<open>remaining\<close>, with \<open>getpid\<close>, \<open>gettid\<close>, \<open>clock_gettime\<close> and \<open>HAS_GETTID\<close> read from the
    record \<open>dbg_env\<close>; the specification of a template (\<open>hdr_tokens\<close>, \<open>directive_text\<close>,
    \<open>hdr_text\<close>).
  \<^item> \<open>Dbg_Format\<close>: \<open>__vdbg\<close>: the loop variables as the record \<open>fmt_state\<close>, one iteration
    \<open>vdbg_step\<close>, the bookkeeping of lines 149--158 \<open>vdbg_account\<close> (the overflow check of
    the signed \<open>rc += rc2\<close>, then the arithmetic \<open>vdbg_advance\<close>), the loop \<open>vdbg_loop\<close>
    and \<open>vdbg\<close>; the invariant \<open>fmt_inv\<close> (\<open>p + remaining = 256\<close>, \<open>rc\<close> the length of the
    text produced, the cells below \<open>p\<close> holding it).
  \<^item> \<open>Dbg_Hex\<close>: \<open>__vdbg_hex\<close>: the column loop \<open>hex_cols\<close>, a row \<open>hex_row\<close>, the row loop
    \<open>hex_rows\<close>, \<open>vdbg_hex\<close>; the specification \<open>hex_dump\<close> of the rows of a buffer.
  \<^item> \<open>Dbg_Iov\<close>: \<open>__vdbg_hex_iov\<close>: the record \<open>iovec\<close>, the loop locals \<open>iov_state\<close>, the
    byte body \<open>iov_byte\<close>, the loops \<open>iov_bytes\<close> and \<open>iov_segs\<close>, \<open>vdbg_hex_iov\<close>; the
    specification \<open>iov_dump\<close> of the rows of a stream of segments; the invariants \<open>iov_inv\<close>
    (exact contents) and \<open>iov_ok\<close> (shape only, for any byte offset).
  \<^item> \<open>Dbg_Iov_Machine\<close>: the loop nest of \<open>__vdbg_hex_iov\<close> again, as the transition
    system \<open>iov_step\<close> over configurations \<open>iov_cfg\<close> (a program point \<open>iov_pc\<close> of the
    two loop tests with the locals, or an exit), one rule per branch of lines 262--291.
  \<^item> \<open>Dbg_Wrappers\<close>: \<open>DBG_HEADER\<close>, the six wrapper variants \<open>dbg_on\<close>, \<open>dbg_off\<close>,
    \<open>dbg_hex_on\<close>, ..., and the macros \<open>dbg_cond\<close>, \<open>dbg_t\<close>, \<open>dbg_f\<close>, \<open>dbg\<close>,
    \<open>dbg_hex\<close>, \<open>dbg_hex_cond\<close>, \<open>dbg_hex_iov\<close>, \<open>dbg_hex_iov_cond\<close>, the switch \<open>DBG\<close> a
    parameter.

  \<^bold>\<open>What is shown.\<close>
  \<^item> The formatter (C1--C6, C24, C25, C29, C31, C32): whatever \<open>__vdbg\<close> returns without undefined behaviour is the
    header text followed by the message, truncated at the end only, with the untruncated
    length; when both fit it prints exactly that; when the header fits (254 characters or
    fewer) it prints exactly the first 255 characters of header and message, however long
    the message (C25, from \<open>snprintf_trunc\<close> of \<open>Libc\<close>); every loop iteration keeps \<open>fmt_inv\<close>;
    and three ways it goes wrong: a header of 255 or more literals prints a cell never
    written, \<open>%%\<close> after a full buffer stores past the array, a malformed template or a
    failing clock always ends in undefined behaviour; and a header and message longer
    than \<open>INT_MAX\<close> together overflow the \<open>int\<close> count \<open>rc\<close> (C24).  An unknown
    selector after a well-formed part of the template changes nothing it prints or
    returns (C29); when the header fits in 254 characters \<open>%%\<close> puts one \<open>%\<close> at its place (C31); a template of at most 254
    literals is printed verbatim (C32), the examples the specification lists among its
    testable properties.
  \<^item> The expander (C7--C9, C26, C27): unknown selectors expand to nothing, the result is never
    negative (errors of the clock are not reported), \<open>%B\<close> is the last path component;
    every selector but \<open>%\<close> returns its text's full length, stores no more than fits and
    touches no cell outside \<open>[p, p + remaining)\<close> (C26); the numbers it stores read back
    through the readers \<open>read_dec\<close>, \<open>read_int\<close>, \<open>read_time\<close> of \<open>Libc\<close> as the line
    number, the ids and the monotonic seconds and microseconds (C27).
  \<^item> The contiguous dumper (C10--C12, C20, C22): for fewer than \<open>2^32\<close> bytes it prints exactly
    \<open>hex_dump\<close> and returns 0; a size within 15 of \<open>SIZE_MAX\<close> wraps to no row; \<open>2^32\<close>
    rows or more never terminate.
    Reading the printed rows back (\<open>unhex_row\<close>) gives the buffer again (C20).
    For \<open>2^32\<close> bytes or more the 32-bit index \<open>i * N_ROW_ITEMS + j\<close> wraps: row \<open>r\<close>
    prints the bytes at \<open>16 r mod 2^32\<close>, repeating the start of the buffer (C22).
  \<^item> Output errors (C18, C19): on a failing output stream \<open>__vdbg_hex\<close> stops at the first
    row and returns the row's negative \<open>printf\<close> result, while \<open>__vdbg_hex_iov\<close> never
    checks its \<open>printf\<close> and returns 3 as if every row had been written (the invariant
    \<open>iov_inv\<close> follows the stream through \<open>sink_rows\<close>, which leaves a failing stream
    unchanged).
  \<^item> The scattered dumper (C13, C17): for fewer than \<open>2^32\<close> bytes it prints exactly
    the full rows of \<open>iov_dump\<close> and returns 3 (0 for no byte), so the final partial row
    is lost (\<open>iov_dump\<close> has \<open>length div 16\<close> rows); a segment of \<open>2^32\<close> bytes or more
    never terminates.
  \<^item> The two dumpers compared (C28, in this theory): two segments of 16 bytes in all print
    the contiguous dump of their concatenation with one separator changed to \<open>*\<close>, the
    comparison the specification lists among its testable properties.
  \<^item> The loop nest as a machine (C21): every reachable configuration is well formed
    (\<open>cfg_ok\<close>: the row fits \<open>out_buf\<close>, the early return of a failed \<open>snprintf\<close> is
    unreachable), for any segments and any byte offset.  The lemma \<open>iov_segs_steps\<close> shows
    the machine halts with an outcome exactly when \<open>iov_segs\<close> returns it.
  \<^item> The interface (C14--C16, C23, C30): the default header prints \<open>func:line: \<close>; the caption
    of \<open>dbg_hex_iov\<close> is \<open>dbg\<close>'s with file and function exchanged; with \<open>DBG\<close> zero or a
    false condition nothing is printed; \<open>dbg_hex\<close> composes the caption of the formatter
    with the rows of the contiguous dumper, \<open>dbg_hex_iov\<close> the caption (showing the file
    where \<open>%f\<close> asks for the function) with the rows of the scattered dumper (C30).

  \<^bold>\<open>Bounds and non-termination.\<close>  The loops of \<open>__vdbg\<close> and the column loop are
  \<^theory_text>\<open>function\<close>s with measures (the template index, the column count).  The row
  loop of \<open>__vdbg_hex\<close> and both loops of \<open>__vdbg_hex_iov\<close> compare 32-bit counters with
  64-bit bounds and can run for ever; they are \<^theory_text>\<open>partial_function (option)\<close>, \<open>None\<close>
  being non-termination.  Termination is proved where it holds (fewer than \<open>2^32\<close> bytes,
  so no counter wraps and every prefix has at most 8 hex digits) and non-termination, by
  fixpoint induction over a shape invariant, where the counters wrap.

  \<^bold>\<open>Not modelled.\<close>
  \<^item> The C library itself (\<open>snprintf\<close>, \<open>printf\<close>, \<open>clock_gettime\<close>, \<open>getpid\<close>,
    \<open>gettid\<close>): only its contracts are modelled; \<^verbatim>\<open>src/gettid.h\<close> is a prototype only.
    The contract of \<open>snprintf\<close> returns the full length of its text; its \<open>EOVERFLOW\<close>
    failure for a text longer than \<open>INT_MAX\<close> is left out, so the claims about such
    lengths (C24) keep every converted text within \<open>INT_MAX\<close>.
  \<^item> The \<open>printf\<close>-style formatting of the caller's message: the message is the string
    \<open>vsnprintf\<close> would produce (or \<open>None\<close> for a conversion error); varargs are not modelled.
  \<^item> A user-defined \<open>DBG_HEADER\<close>: the formatter is verified for any template, the
    wrappers for the default one.
  \<^item> Concurrency: every buffer is local to a call; interleaving of whole lines is the
    output stream's concern.
  \<^item> Declarations without run-time behaviour: the \<open>#include\<close>s, the include guards,
    the \<open>#warning\<close> for a missing \<open>DBG\<close>, and the prototypes of dbg.h (lines 15--33) with
    their \<open>format(printf, ...)\<close> attributes, which only let the compiler check the callers'
    format strings.  Every statement of dbg.c and every inline function and macro of dbg.h
    that runs is modelled; what the map leaves out of the sources is these lines and the
    comments.
\<close>

section \<open>Properties across components\<close>

text \<open>
  C28: the example of the specification's testable properties that compares the two
  dumpers.  For two non-empty segments of 16 bytes in all, \<open>__vdbg_hex_iov\<close> prints the
  same caption and the same row as \<open>__vdbg_hex\<close> over their concatenation, except that
  the separator before the first byte of the second segment is \<open>*\<close> instead of a space.
  (The return values differ: 0 and 3.)
\<close>

theorem scattered_matches_contiguous:
  assumes cap: "vdbg env hdr fl fn lineno msg sk = Inr (rc0, sk1)" and ok: "\<not> sk_broken sk"
    and xs: "xs \<noteq> []" and ys: "ys \<noteq> []" and len: "length xs + length ys = 16"
  shows "vdbg_hex env hdr fl fn lineno (xs @ ys) 16 msg sk =
       Some (Inr (0, sk1\<lparr>sk_out := sk_out sk1 @ [hex_line 0 (xs @ ys) @ EOL]\<rparr>)) \<and>
     vdbg_hex_iov env hdr fn fl lineno
       [\<lparr>iov_base = xs, iov_len = of_nat (length xs)\<rparr>, \<lparr>iov_base = ys, iov_len = of_nat (length ys)\<rparr>] 2 msg sk =
       Some (Inr (3, sk1\<lparr>sk_out := sk_out sk1 @ [(hex_line 0 (xs @ ys) @ EOL)[3 * length xs + 3 := CHR ''*'']]\<rparr>))"
proof
  have ok1: "\<not> sk_broken sk1" using vdbg_sink_broken [OF cap] ok by simp
  have u16: "unat (16 :: u64) = 16" by simp
  from hex_rows_dump [of 16 "xs @ ys" sk1 0] ok1 len
  have "hex_rows (xs @ ys) 16 0 sk1 = Some (Inr (0, sk1\<lparr>sk_out := sk_out sk1 @ [hex_line 0 (xs @ ys) @ EOL]\<rparr>))"
    by simp
  with cap show "vdbg_hex env hdr fl fn lineno (xs @ ys) 16 msg sk =
       Some (Inr (0, sk1\<lparr>sk_out := sk_out sk1 @ [hex_line 0 (xs @ ys) @ EOL]\<rparr>))"
    by (simp add: vdbg_hex_def)
next
  let ?vec = "[\<lparr>iov_base = xs, iov_len = of_nat (length xs)\<rparr>, \<lparr>iov_base = ys, iov_len = of_nat (length ys)\<rparr>] :: iovec list"
  have ok1: "\<not> sk_broken sk1" using vdbg_sink_broken [OF cap] ok by simp
  have lx: "unat (of_nat (length xs) :: u64) = length xs" and ly: "unat (of_nat (length ys) :: u64) = length ys"
    using len by (simp_all add: unat_of_nat)
  then have sd: "map seg_data (take (unat (2 :: u64)) ?vec) = [xs, ys]" by (simp add: seg_data_def)
  from iov_segs_run [of 2 ?vec sk1] sd len lx ly obtain s' where
    run: "iov_segs ?vec 2 0 (iov_init sk1) = Some (Inr (Inr s'))"
    and rc: "is_rc s' = 3" and snk: "is_sink s' = sink_rows sk1 (iov_dump (iov_marks '' '' [xs, ys]))"
    using xs by auto
  from snk ok1 have "is_sink s' = sk1\<lparr>sk_out := sk_out sk1 @ [(hex_line 0 (xs @ ys) @ EOL)[3 * length xs + 3 := CHR ''*'']]\<rparr>"
    unfolding sink_rows_def iov_dump_two_segments [OF xs ys len] by simp
  with cap run rc show "vdbg_hex_iov env hdr fn fl lineno ?vec 2 msg sk =
       Some (Inr (3, sk1\<lparr>sk_out := sk_out sk1 @ [(hex_line 0 (xs @ ys) @ EOL)[3 * length xs + 3 := CHR ''*'']]\<rparr>))"
    by (simp add: vdbg_hex_iov_def)
qed

theorem scattered_matches_contiguous_witness:
  "vdbg_hex \<lparr>env_pid = 100, env_tid = 101, env_clock = Some (7, 250000000), env_has_gettid = True\<rparr>
     ''%f:%l: '' ''dbg.c'' ''main'' 42 [0, 1, 2, 3, 4, 5, 6, 7, 8, 9, 10, 11, 12, 13, 14, 15] 16 (Some ''hi'')
     \<lparr>sk_out = [], sk_broken = False\<rparr> =
     Some (Inr (0, \<lparr>sk_out = [''main:42: hi'', ''00: 00 01 02 03 04 05 06 07 08 09 0a 0b 0c 0d 0e 0f'' @ EOL],
                    sk_broken = False\<rparr>)) \<and>
   vdbg_hex_iov \<lparr>env_pid = 100, env_tid = 101, env_clock = Some (7, 250000000), env_has_gettid = True\<rparr>
     ''%f:%l: '' ''main'' ''dbg.c'' 42
     [\<lparr>iov_base = [0, 1, 2, 3, 4, 5, 6, 7, 8, 9], iov_len = 10\<rparr>, \<lparr>iov_base = [10, 11, 12, 13, 14, 15], iov_len = 6\<rparr>]
     2 (Some ''hi'') \<lparr>sk_out = [], sk_broken = False\<rparr> =
     Some (Inr (3, \<lparr>sk_out = [''main:42: hi'', ''00: 00 01 02 03 04 05 06 07 08 09*0a 0b 0c 0d 0e 0f'' @ EOL],
                    sk_broken = False\<rparr>))"
proof -
  have "hex_line 0 ([0, 1, 2, 3, 4, 5, 6, 7, 8, 9] @ [10, 11, 12, 13, 14, 15]) =
      ''00: 00 01 02 03 04 05 06 07 08 09 0a 0b 0c 0d 0e 0f''"
    by (simp add: hex_line_def dbg_eval)
  with scattered_matches_contiguous [OF vdbg_main_run, of "[0, 1, 2, 3, 4, 5, 6, 7, 8, 9]" "[10, 11, 12, 13, 14, 15]"]
  show ?thesis by (simp add: EOL_def)
qed

end
